theory Spec2Isabelle
  imports Complex_Main "HOL-Library.Sublist" "HOL-Library.Log_Nat"
begin

section \<open>Data model (models.py)\<close>

text \<open>
  The pydantic models of \<^verbatim>\<open>models.py\<close> as records. Several models share field
  names (\<^verbatim>\<open>id\<close>, \<^verbatim>\<open>statement\<close>, \<^verbatim>\<open>has_contradictions\<close>); the selectors are
  written qualified (\<open>Source.id\<close>, \<open>Claim.id\<close>) throughout.

  A Python \<^verbatim>\<open>str\<close> is a sequence of Unicode code points. The content of a source is
  text scraped from the web, and the code classifies its characters (whitespace or
  not): it is a list of code points, \<open>unicode\<close>. The identifiers, URLs, titles and
  messages are only copied and compared for equality: they are \<^typ>\<open>string\<close>s, and
  \<open>ustr\<close> gives the code points of one where it becomes part of a text.

  A Python \<^verbatim>\<open>float\<close> is an IEEE 754 binary64 number. It is modelled by the
  \<^typ>\<open>real\<close> it denotes, and every operation on floats rounds its exact result to
  the nearest binary64 number (see the section on floating-point numbers).
\<close>

type_synonym unicode = "nat list"

definition ustr :: "string \<Rightarrow> unicode" where
  "ustr s = map of_char s"

record Source =
  id :: string
  url :: string
  title :: "string option"
  content :: "unicode option"

record Claim =
  id :: string
  statement :: string
  verification_question :: string
  source_urls :: "string list"
  source_ids :: "string list"

text \<open>
  \<^verbatim>\<open>status: Literal["SUPPORTED", "PARTIALLY_SUPPORTED", "CONTRADICTED", "UNVERIFIABLE"]\<close>:
  a pydantic-validated string with four possible values. \<open>status_str\<close> gives the
  string itself, which is what the dictionaries of the scorer and of the report
  generator are keyed by.
\<close>

datatype Status = SUPPORTED | PARTIALLY_SUPPORTED | CONTRADICTED | UNVERIFIABLE

fun status_str :: "Status \<Rightarrow> string" where
  "status_str SUPPORTED = ''SUPPORTED''"
| "status_str PARTIALLY_SUPPORTED = ''PARTIALLY_SUPPORTED''"
| "status_str CONTRADICTED = ''CONTRADICTED''"
| "status_str UNVERIFIABLE = ''UNVERIFIABLE''"

record ValidationResult =
  claim_id :: string
  statement :: string
  verification_question :: string
  status :: Status
  confidence :: real
  reasoning :: string
  has_contradictions :: bool

record ExtractedReport =
  claims :: "Claim list"
  sources :: "Source list"

record TrustReport =
  id :: string
  timestamp :: string
  trust_score :: real
  claim_count :: int
  results :: "string \<rightharpoonup> int"
  has_contradictions :: bool

section \<open>Floating-point numbers\<close>

text \<open>
  \<^verbatim>\<open>round(x)\<close> on an exact number: the nearest integer, a tie going to the even
  neighbour.
\<close>

definition py_round :: "real \<Rightarrow> int" where
  "py_round x =
     (let f = \<lfloor>x\<rfloor>; d = x - of_int f
      in if d < 1 / 2 then f
         else if 1 / 2 < d then f + 1
         else if even f then f else f + 1)"

text \<open>
  \<open>ilog2 x\<close> is the binary exponent of a positive number: the integer \<open>e\<close> with
  \<open>2 ^ e \<le> x < 2 ^ (e + 1)\<close>, computed from the bit length of an integer.
\<close>

definition ilog2 :: "real \<Rightarrow> int" where
  "ilog2 x = (if 1 \<le> x then bitlen \<lfloor>x\<rfloor> - 1 else - bitlen (\<lceil>1 / x\<rceil> - 1))"

text \<open>
  \<open>fl x\<close> is the binary64 number nearest to \<open>x\<close>, a tie going to the one with an
  even significand (the rounding mode of CPython's float arithmetic): with
  \<open>e = ilog2 \<bar>x\<bar>\<close>, the binary64 numbers around \<open>x\<close> are the multiples of
  \<open>2 ^ (e - 52)\<close>, which gives 53 significant bits. The exponent is not bounded: the
  model has no overflow to infinity and no subnormal numbers. The numbers of the scorer
  are far from both: they are 0 or lie between \<open>0.2 / n\<close> and 100 for \<open>n\<close> results.
\<close>

definition fl :: "real \<Rightarrow> real" where
  "fl x =
     (if x = 0 then 0
      else let u = 2 powi (ilog2 \<bar>x\<bar> - 52)
           in sgn x * (of_int (py_round (\<bar>x\<bar> / u)) * u))"

text \<open>
  The operations of Python on floats. An \<^verbatim>\<open>int\<close> operand is converted to a float
  first (\<open>float_of_int\<close>). \<^verbatim>\<open>a / b\<close> raises on a zero divisor.
\<close>

datatype py_error = ZeroDivisionError | KeyError string

definition float_of_int :: "int \<Rightarrow> real" where
  "float_of_int n = fl (of_int n)"

definition fadd :: "real \<Rightarrow> real \<Rightarrow> real" where
  "fadd a b = fl (a + b)"

definition fsub :: "real \<Rightarrow> real \<Rightarrow> real" where
  "fsub a b = fl (a - b)"

definition fmul :: "real \<Rightarrow> real \<Rightarrow> real" where
  "fmul a b = fl (a * b)"

definition py_truediv :: "real \<Rightarrow> real \<Rightarrow> py_error + real" where
  "py_truediv a b = (if b = 0 then Inl ZeroDivisionError else Inr (fl (a / b)))"

text \<open>
  \<^verbatim>\<open>sum(...)\<close> over floats: it starts from the integer 0 and adds the items from
  left to right, each addition rounded. This is \<^verbatim>\<open>sum\<close> of CPython up to version
  3.11; from version 3.12 on, \<^verbatim>\<open>sum\<close> carries a compensation term for floats, which
  can change the last bit of the total.
\<close>

definition py_sum :: "real list \<Rightarrow> real" where
  "py_sum xs = foldl fadd 0 xs"

text \<open>
  \<^verbatim>\<open>max(0, x)\<close> keeps its first argument unless the second is greater.
\<close>

definition py_max0 :: "real \<Rightarrow> real" where
  "py_max0 x = (if 0 < x then x else 0)"

text \<open>
  \<^verbatim>\<open>round(x, 1)\<close> on a float: the exact value of \<open>x\<close> is rounded to a whole number of
  tenths, a tie going to the even one, and the float nearest to that decimal number is
  returned.
\<close>

definition round1 :: "real \<Rightarrow> real" where
  "round1 x = fl (of_int (py_round (x * 10)) / 10)"

section \<open>Dictionaries\<close>

text \<open>\<^verbatim>\<open>d.get(k, default)\<close> on a dictionary.\<close>

definition dict_get :: "('k \<rightharpoonup> 'v) \<Rightarrow> 'k \<Rightarrow> 'v \<Rightarrow> 'v" where
  "dict_get d k dflt = (case d k of None \<Rightarrow> dflt | Some v \<Rightarrow> v)"

section \<open>Trust scorer (validation.py, calculate\_trust\_score)\<close>

text \<open>
  The literals \<^verbatim>\<open>1.0\<close>, \<^verbatim>\<open>0.5\<close> and \<^verbatim>\<open>0.0\<close> are binary64 numbers; \<^verbatim>\<open>0.2\<close>
  denotes the binary64 number nearest to one fifth.
\<close>

definition weights :: "string \<rightharpoonup> real" where
  "weights = map_of
     [(''SUPPORTED'', 1),
      (''PARTIALLY_SUPPORTED'', 1 / 2),
      (''CONTRADICTED'', 0),
      (''UNVERIFIABLE'', fl (2 / 10))]"

text \<open>\<^verbatim>\<open>sum(1 for r in validation_results if r.has_contradictions)\<close>, on integers.\<close>

definition contradictions_within_claim :: "ValidationResult list \<Rightarrow> int" where
  "contradictions_within_claim validation_results =
     sum_list (map (\<lambda>r. 1) (filter ValidationResult.has_contradictions validation_results))"

text \<open>\<^verbatim>\<open>min(20, contradictions_within_claim * 5)\<close>, on Python's unbounded ints.\<close>

definition contradiction_penalty :: "int \<Rightarrow> int" where
  "contradiction_penalty c = min 20 (c * 5)"

definition calculate_trust_score :: "ValidationResult list \<Rightarrow> py_error + real" where
  "calculate_trust_score validation_results =
     (if validation_results = [] then Inr 0
      else
        let score_sum = py_sum (map (\<lambda>result. dict_get weights (status_str (status result)) 0)
                                    validation_results);
            max_score = int (length validation_results)
        in if max_score = 0 then Inr 0
           else
             case py_truediv score_sum (float_of_int max_score) of
               Inl e \<Rightarrow> Inl e
             | Inr avg \<Rightarrow>
                 let trust_score = fmul avg (float_of_int 100);
                     c = contradictions_within_claim validation_results;
                     trust_score = (if 0 < c
                                    then py_max0 (fsub trust_score
                                                    (float_of_int (contradiction_penalty c)))
                                    else trust_score)
                 in Inr (round1 trust_score))"

subsection \<open>The scorer as the specification words it\<close>

text \<open>
  Weight table, base score, penalty and final score as section 4.5 of the
  specification states them, in the arithmetic of floats, to compare the source
  against: base = (sum of weights / count of results) times 100 and penalty =
  min(20, count times 5).
\<close>

fun spec_weight :: "Status \<Rightarrow> real" where
  "spec_weight SUPPORTED = 1"
| "spec_weight PARTIALLY_SUPPORTED = 1 / 2"
| "spec_weight CONTRADICTED = 0"
| "spec_weight UNVERIFIABLE = fl (2 / 10)"

definition spec_flagged :: "ValidationResult list \<Rightarrow> nat" where
  "spec_flagged rs = length (filter ValidationResult.has_contradictions rs)"

definition spec_base :: "ValidationResult list \<Rightarrow> real" where
  "spec_base rs =
     fmul (fl (py_sum (map (\<lambda>r. spec_weight (status r)) rs) / float_of_int (int (length rs))))
          (float_of_int 100)"

definition spec_penalty :: "ValidationResult list \<Rightarrow> int" where
  "spec_penalty rs = min 20 (5 * int (spec_flagged rs))"

text \<open>A result with a given status, confidence and contradiction flag, for examples.\<close>

definition mk_result :: "Status \<Rightarrow> real \<Rightarrow> bool \<Rightarrow> ValidationResult" where
  "mk_result s c h =
     \<lparr>claim_id = ''claim-0'', statement = ''s'', verification_question = ''q'',
      status = s, confidence = c, reasoning = ''r'', has_contradictions = h\<rparr>"

section \<open>Strings\<close>

text \<open>
  \<^verbatim>\<open>str(i)\<close> for a non-negative index: its decimal digits.
\<close>

definition digit_char :: "nat \<Rightarrow> char" where
  "digit_char d = char_of (48 + d)"

fun str_nat :: "nat \<Rightarrow> string" where
  "str_nat n = (if n < 10 then [digit_char n]
                else str_nat (n div 10) @ [digit_char (n mod 10)])"

declare str_nat.simps [simp del]

text \<open>
  \<^verbatim>\<open>str.isspace\<close> on one character, given by its code point, which is also what
  \<^verbatim>\<open>\s\<close> matches in a \<^verbatim>\<open>str\<close> pattern and what \<^verbatim>\<open>str.strip()\<close> removes: the
  characters of bidirectional type WS, B or S and those of category Zs. These are the
  controls U+0009 to U+000D and U+001C to U+001F, the space, U+0085, U+00A0, U+1680,
  U+2000 to U+200A, U+2028, U+2029, U+202F, U+205F and U+3000.
\<close>

definition isspace :: "nat \<Rightarrow> bool" where
  "isspace c =
     (c \<in> {0x09, 0x0A, 0x0B, 0x0C, 0x0D, 0x1C, 0x1D, 0x1E, 0x1F, 0x20, 0x85, 0xA0,
            0x1680, 0x2028, 0x2029, 0x202F, 0x205F, 0x3000}
      \<or> (0x2000 \<le> c \<and> c \<le> 0x200A))"

definition strip :: "unicode \<Rightarrow> unicode" where
  "strip s = rev (dropWhile isspace (rev (dropWhile isspace s)))"

text \<open>
  \<^verbatim>\<open>re.sub(r"\s{3,}", "\n\n", s)\<close>: scanning from the left, the greedy pattern
  takes a whole maximal run of whitespace when the run has three characters or more,
  and matches nowhere inside a shorter run.
\<close>

function re_sub_ws3 :: "unicode \<Rightarrow> unicode" where
  "re_sub_ws3 [] = []"
| "re_sub_ws3 (c # cs) =
     (if isspace c
      then (let run = takeWhile isspace (c # cs)
            in (if 3 \<le> length run then [0x0A, 0x0A] else run)
               @ re_sub_ws3 (dropWhile isspace cs))
      else c # re_sub_ws3 cs)"
  by pat_completeness auto
termination
  by (relation "measure length") (auto simp: less_Suc_eq_le length_dropWhile_le)

section \<open>Capabilities, the record of their calls and the result objects\<close>

text \<open>
  The three external clients are functions of their request and of the state of the
  outside world \<open>'w\<close>, which they may change; \<open>Inl msg\<close> is an \<^verbatim>\<open>Exception\<close>
  raised by the call (or while its response is read) with \<^verbatim>\<open>str(e) = msg\<close>. The
  pipeline's own state \<open>world\<close> holds the outside world, the list of calls made so
  far, oldest first, and the result objects.

  A \<^verbatim>\<open>ValidationResult\<close> is a mutable object, and \<^verbatim>\<open>validate_claim\<close> writes into the
  object the judgment client hands over (lines 215 to 217) and returns that very
  object. So the result objects live in a heap: the list \<open>heap\<close> of the objects
  created so far, the address of an object being its position. Each object is paired
  with a flag that tells who created it: \<open>True\<close> for the judgment client, \<open>False\<close>
  for \<^verbatim>\<open>validate_claim\<close> itself (lines 160 and 225). Creating an object appends it;
  the lists of results that the functions build are lists of addresses, and
  \<open>objects\<close> reads the objects of such a list.

  The request to the judgment client is the pair of messages built by
  \<^verbatim>\<open>validate_claim\<close>; the wording around the three interpolated parts is fixed, so the
  request is modelled by these parts. The client is a function of the request, the
  outside world and the heap. It may assign to the fields of objects that it has
  created itself (the list of writes, applied in order); the objects that
  \<^verbatim>\<open>validate_claim\<close> creates are never handed to the client, so it cannot reach them
  (that the model lets the client's behaviour depend on them only adds behaviours).
  Then the client raises, returns an object it has just created (\<open>Returns_new\<close>), or
  returns one it created during an earlier call (\<open>Returns_existing\<close> with its
  address). \<open>Returns_existing\<close> with an address that holds no object of the client
  stands for a return value that is no result object at all, \<^verbatim>\<open>None\<close>.

  The extracted report and its claims and sources are taken by value: the extraction
  client returns a parsed report whose claims and sources are objects of their own.

  What the functions write to the user interface (\<^verbatim>\<open>st.write\<close>, \<^verbatim>\<open>st.warning\<close>,
  \<^verbatim>\<open>st.error\<close>, the progress bar) and their pauses of a tenth of a second are left
  out: nothing the pipeline computes reads them.
\<close>

record judge_request =
  req_claim :: string
  req_verification_question :: string
  req_sources_text :: unicode

datatype call =
    Extract_call string
  | Scrape_call string
  | Judge_call judge_request

record 'w world =
  outside :: 'w
  calls :: "call list"
  heap :: "(bool \<times> ValidationResult) list"

definition objects :: "'w world \<Rightarrow> nat list \<Rightarrow> ValidationResult list" where
  "objects w refs = map (\<lambda>a. snd (heap w ! a)) refs"

text \<open>
  What \<^verbatim>\<open>scrape_url\<close> returned: a falsy value (\<^verbatim>\<open>None\<close>, an empty dictionary),
  a dictionary without the key \<^verbatim>\<open>"markdown"\<close>, or one with it. A response that
  cannot be read this way (its \<^verbatim>\<open>markdown\<close> entry is not a string, say) makes line
  124 or 126 raise inside the \<^verbatim>\<open>try\<close> block, which is the case \<open>Inl\<close>.
\<close>

datatype scrape_response = Falsy | Without_markdown | With_markdown unicode

datatype judge_return = Raises string | Returns_new ValidationResult | Returns_existing nat

type_synonym 'w extractor_client = "string \<Rightarrow> 'w \<Rightarrow> (string + ExtractedReport) \<times> 'w"
type_synonym 'w firecrawl_client = "string \<Rightarrow> 'w \<Rightarrow> (string + scrape_response) \<times> 'w"
type_synonym 'w validator_client =
  "judge_request \<Rightarrow> 'w \<Rightarrow> (bool \<times> ValidationResult) list
     \<Rightarrow> ((nat \<times> ValidationResult) list \<times> judge_return) \<times> 'w"

text \<open>A call of the extraction or of the scraping client.\<close>

definition invoke :: "('req \<Rightarrow> 'w \<Rightarrow> 'resp \<times> 'w) \<Rightarrow> ('req \<Rightarrow> call) \<Rightarrow> 'req \<Rightarrow> 'w world
                        \<Rightarrow> 'resp \<times> 'w world" where
  "invoke client tag req w =
     (case client req (outside w) of
        (resp, o') \<Rightarrow> (resp, w\<lparr>outside := o', calls := calls w @ [tag req]\<rparr>))"

text \<open>
  \<open>owned h a\<close>: the address \<open>a\<close> holds an object that the client created. The
  writes of a client: \<open>(a, v)\<close> leaves the object at address \<open>a\<close> with the fields
  \<open>v\<close>, when the client owns it.
\<close>

definition owned :: "(bool \<times> ValidationResult) list \<Rightarrow> nat \<Rightarrow> bool" where
  "owned h a = (a < length h \<and> fst (h ! a))"

definition apply_writes :: "(nat \<times> ValidationResult) list \<Rightarrow> (bool \<times> ValidationResult) list
                              \<Rightarrow> (bool \<times> ValidationResult) list" where
  "apply_writes writes h =
     foldl (\<lambda>h (a, v). if owned h a then h[a := (True, v)] else h) h writes"

text \<open>
  A call of the judgment client, and what \<^verbatim>\<open>validate_claim\<close> gets from it: an
  exception, the address of a result object, or \<^verbatim>\<open>None\<close>.
\<close>

datatype judge_outcome = Raised string | Returned nat | Returned_None

definition invoke_judge :: "'w validator_client \<Rightarrow> judge_request \<Rightarrow> 'w world
                              \<Rightarrow> judge_outcome \<times> 'w world" where
  "invoke_judge client req w =
     (case client req (outside w) (heap w) of
        ((writes, ret), o') \<Rightarrow>
          (let h = apply_writes writes (heap w);
               w' = \<lparr>outside = o', calls = calls w @ [Judge_call req], heap = h\<rparr>
           in case ret of
                Raises e \<Rightarrow> (Raised e, w')
              | Returns_new obj \<Rightarrow> (Returned (length h), w'\<lparr>heap := h @ [(True, obj)]\<rparr>)
              | Returns_existing a \<Rightarrow> (if owned h a then Returned a else Returned_None, w')))"

section \<open>Extraction and claim linking (validation.py, extract\_claims\_and\_sources)\<close>

text \<open>Lines 80 to 83: the IDs are assigned by position.\<close>

definition source_id_str :: "string \<Rightarrow> nat \<Rightarrow> string" where
  "source_id_str report_id i = ''source-'' @ report_id @ ''-'' @ str_nat i"

definition claim_id_str :: "string \<Rightarrow> nat \<Rightarrow> string" where
  "claim_id_str report_id i = ''claim-'' @ report_id @ ''-'' @ str_nat i"

definition assign_source_ids :: "string \<Rightarrow> Source list \<Rightarrow> Source list" where
  "assign_source_ids report_id srcs =
     map (\<lambda>(i, source). source\<lparr>Source.id := source_id_str report_id i\<rparr>) (enumerate 0 srcs)"

definition assign_claim_ids :: "string \<Rightarrow> Claim list \<Rightarrow> Claim list" where
  "assign_claim_ids report_id cs =
     map (\<lambda>(i, claim). claim\<lparr>Claim.id := claim_id_str report_id i\<rparr>) (enumerate 0 cs)"

text \<open>
  Line 86, \<^verbatim>\<open>{source.url: source.id for source in result.sources}\<close>: the entries are
  stored in list order, a later one replacing an earlier one with the same key.
\<close>

definition url_to_source_id :: "Source list \<Rightarrow> (string \<rightharpoonup> string)" where
  "url_to_source_id srcs = foldl (\<lambda>d source. d(url source \<mapsto> Source.id source)) Map.empty srcs"

text \<open>
  Lines 88 to 95, for one claim: look every cited URL that is a key up with
  \<^verbatim>\<open>.get\<close>, then keep the entries that are not \<^verbatim>\<open>None\<close>.
\<close>

definition link_claim :: "(string \<rightharpoonup> string) \<Rightarrow> Claim \<Rightarrow> Claim" where
  "link_claim d claim =
     (let looked_up = map (\<lambda>url. d url) (filter (\<lambda>url. d url \<noteq> None) (source_urls claim));
          kept = concat (map (\<lambda>source_id. case source_id of None \<Rightarrow> [] | Some i \<Rightarrow> [i]) looked_up)
      in claim\<lparr>source_ids := kept\<rparr>)"

definition link_claims :: "Source list \<Rightarrow> Claim list \<Rightarrow> Claim list" where
  "link_claims srcs cs = map (link_claim (url_to_source_id srcs)) cs"

text \<open>
  The whole function; \<open>report_id\<close> is the prefix of the UUID drawn at line 56. Every
  exception of the body is caught at line 101 and turns into \<^verbatim>\<open>None\<close>.
\<close>

definition extract_claims_and_sources ::
  "string \<Rightarrow> 'w extractor_client \<Rightarrow> string \<Rightarrow> 'w world \<Rightarrow> ExtractedReport option \<times> 'w world" where
  "extract_claims_and_sources report_text extractor_client report_id w =
     (case invoke extractor_client Extract_call report_text w of
        (Inl e, w') \<Rightarrow> (None, w')
      | (Inr result, w') \<Rightarrow>
          (let srcs = assign_source_ids report_id (sources result);
               cs = assign_claim_ids report_id (claims result)
           in (Some \<lparr>claims = link_claims srcs cs, sources = srcs\<rparr>, w')))"

section \<open>Source retrieval (validation.py, fetch\_sources)\<close>

definition fetch_error_prefix :: "string \<Rightarrow> string" where
  "fetch_error_prefix u = ''Error fetching content from '' @ u"

text \<open>
  The body of the loop for one source, lines 117 to 136: the content the source gets
  from the outcome of \<^verbatim>\<open>scrape_url\<close>.
\<close>

fun fetched_content :: "string \<Rightarrow> string + scrape_response \<Rightarrow> unicode" where
  "fetched_content u (Inr (With_markdown markdown)) = strip (re_sub_ws3 markdown)"
| "fetched_content u (Inr Falsy) =
     ustr (fetch_error_prefix u @ ''. Firecrawl returned empty or invalid data.'')"
| "fetched_content u (Inr Without_markdown) =
     ustr (fetch_error_prefix u @ ''. Firecrawl returned empty or invalid data.'')"
| "fetched_content u (Inl e) = ustr (fetch_error_prefix u @ '': '' @ e)"

text \<open>The loop of lines 115 to 139, \<open>fetched_sources\<close> being its accumulator.\<close>

fun fetch_loop :: "'w firecrawl_client \<Rightarrow> Source list \<Rightarrow> Source list \<Rightarrow> 'w world
                     \<Rightarrow> Source list \<times> 'w world" where
  "fetch_loop firecrawl_app [] fetched_sources w = (fetched_sources, w)"
| "fetch_loop firecrawl_app (source # rest) fetched_sources w =
     (case invoke firecrawl_app Scrape_call (url source) w of
        (result, w') \<Rightarrow>
          fetch_loop firecrawl_app rest
            (fetched_sources @ [source\<lparr>content := Some (fetched_content (url source) result)\<rparr>]) w')"

text \<open>
  \<^verbatim>\<open>firecrawl_app\<close> is \<^verbatim>\<open>None\<close> when the clients were not initialised; line 109
  then returns the list as it came.
\<close>

definition fetch_sources :: "Source list \<Rightarrow> 'w firecrawl_client option \<Rightarrow> 'w world
                               \<Rightarrow> Source list \<times> 'w world" where
  "fetch_sources srcs firecrawl_app w =
     (case firecrawl_app of
        None \<Rightarrow> (srcs, w)
      | Some app \<Rightarrow> fetch_loop app srcs [] w)"

text \<open>
  The outcomes of the calls that the loop makes for a list of sources, in the order of
  the calls; each call is made in the world that the call before it left.
\<close>

fun scrape_outcomes :: "'w firecrawl_client \<Rightarrow> Source list \<Rightarrow> 'w world
                          \<Rightarrow> (string + scrape_response) list" where
  "scrape_outcomes firecrawl_app [] w = []"
| "scrape_outcomes firecrawl_app (source # rest) w =
     (case invoke firecrawl_app Scrape_call (url source) w of
        (result, w') \<Rightarrow> result # scrape_outcomes firecrawl_app rest w')"

section \<open>Claim validator (validation.py, validate\_claim and validate\_all\_claims)\<close>

text \<open>
  Lines 150 to 154. \<^verbatim>\<open>s.content\<close> is true for a string that is neither
  \<^verbatim>\<open>None\<close> nor empty.
\<close>

definition is_evidence :: "Claim \<Rightarrow> Source \<Rightarrow> bool" where
  "is_evidence claim s =
     (Source.id s \<in> set (source_ids claim)
      \<and> (case content s of
           None \<Rightarrow> False
         | Some text \<Rightarrow> text \<noteq> [] \<and> \<not> prefix (ustr ''Error'') text))"

definition claim_sources :: "Claim \<Rightarrow> Source list \<Rightarrow> Source list" where
  "claim_sources claim srcs = filter (is_evidence claim) srcs"

text \<open>Lines 170 to 175.\<close>

definition source_block :: "Source \<Rightarrow> unicode" where
  "source_block s =
     ustr (''SOURCE ['' @ Source.id s @ ''] '' @ url s @ '':'') @ [0x0A]
       @ (case content s of
            None \<Rightarrow> ustr ''[NO CONTENT]''
          | Some text \<Rightarrow> if text = [] then ustr ''[NO CONTENT]'' else text)"

fun join :: "'a list \<Rightarrow> 'a list list \<Rightarrow> 'a list" where
  "join sep [] = []"
| "join sep [x] = x"
| "join sep (x # y # ys) = x @ sep @ join sep (y # ys)"

definition judge_request_of :: "Claim \<Rightarrow> Source list \<Rightarrow> judge_request" where
  "judge_request_of claim evidence =
     \<lparr>req_claim = Claim.statement claim,
      req_verification_question = Claim.verification_question claim,
      req_sources_text = join [0x0A, 0x0A] (map source_block evidence)\<rparr>"

text \<open>The two results the validator builds itself, lines 160 and 225.\<close>

definition no_evidence_result :: "Claim \<Rightarrow> ValidationResult" where
  "no_evidence_result claim =
     \<lparr>claim_id = Claim.id claim,
      statement = Claim.statement claim,
      verification_question = Claim.verification_question claim,
      status = UNVERIFIABLE,
      confidence = 0,
      reasoning = ''No valid source content available for this claim after fetching.'',
      has_contradictions = False\<rparr>"

definition error_result :: "Claim \<Rightarrow> string \<Rightarrow> ValidationResult" where
  "error_result claim e =
     \<lparr>claim_id = Claim.id claim,
      statement = Claim.statement claim,
      verification_question = Claim.verification_question claim,
      status = UNVERIFIABLE,
      confidence = 0,
      reasoning = ''Validation failed due to an error: '' @ e,
      has_contradictions = False\<rparr>"

text \<open>
  \<^verbatim>\<open>ValidationResult(...)\<close> in \<^verbatim>\<open>validate_claim\<close>: a new object, the value being
  its address.
\<close>

definition new_result :: "ValidationResult \<Rightarrow> 'w world \<Rightarrow> nat option \<times> 'w world" where
  "new_result obj w = (Some (length (heap w)), w\<lparr>heap := heap w @ [(False, obj)]\<rparr>)"

text \<open>
  Lines 215 to 217 write the three fields of the claim into the object \<open>result\<close>.
  On \<^verbatim>\<open>None\<close> line 215 raises the \<^verbatim>\<open>AttributeError\<close> whose message is below, which
  line 222 catches like an exception of the client.
\<close>

definition set_identity :: "Claim \<Rightarrow> ValidationResult \<Rightarrow> ValidationResult" where
  "set_identity claim result =
     result\<lparr>claim_id := Claim.id claim,
            ValidationResult.statement := Claim.statement claim,
            ValidationResult.verification_question := Claim.verification_question claim\<rparr>"

definition attribute_error :: string where
  "attribute_error = [CHR 0x27] @ ''NoneType'' @ [CHR 0x27] @ '' object has no attribute ''
                       @ [CHR 0x27] @ ''claim_id'' @ [CHR 0x27]"

definition validate_claim :: "Claim \<Rightarrow> Source list \<Rightarrow> 'w validator_client \<Rightarrow> 'w world
                                \<Rightarrow> nat option \<times> 'w world" where
  "validate_claim claim srcs validator_client w =
     (let evidence = claim_sources claim srcs
      in if evidence = [] then new_result (no_evidence_result claim) w
         else
           case invoke_judge validator_client (judge_request_of claim evidence) w of
             (Returned result, w') \<Rightarrow>
               (Some result,
                w'\<lparr>heap := (heap w')
                     [result := (fst (heap w' ! result),
                                 set_identity claim (snd (heap w' ! result)))]\<rparr>)
           | (Returned_None, w') \<Rightarrow> new_result (error_result claim attribute_error) w'
           | (Raised e, w') \<Rightarrow> new_result (error_result claim e) w')"

text \<open>The loop of lines 243 to 248; \<open>collected\<close> is its list \<^verbatim>\<open>results\<close>.\<close>

fun validate_loop :: "'w validator_client \<Rightarrow> Source list \<Rightarrow> Claim list \<Rightarrow> nat list
                        \<Rightarrow> 'w world \<Rightarrow> nat list \<times> 'w world" where
  "validate_loop validator_client srcs [] collected w = (collected, w)"
| "validate_loop validator_client srcs (claim # rest) collected w =
     (case validate_claim claim srcs validator_client w of
        (None, w') \<Rightarrow> validate_loop validator_client srcs rest collected w'
      | (Some result, w') \<Rightarrow>
          validate_loop validator_client srcs rest (collected @ [result]) w')"

definition validate_all_claims :: "Claim list \<Rightarrow> Source list \<Rightarrow> 'w validator_client \<Rightarrow> 'w world
                                     \<Rightarrow> nat list \<times> 'w world" where
  "validate_all_claims cs srcs validator_client w = validate_loop validator_client srcs cs [] w"

subsection \<open>Kinds of judgment clients and of results\<close>

text \<open>
  The client assigns to no existing result object and, when it does not raise,
  returns an object that it has created in this call, as a client does that parses
  each response into a new \<^verbatim>\<open>ValidationResult\<close>.
\<close>

definition fresh_client :: "'w validator_client \<Rightarrow> bool" where
  "fresh_client client =
     (\<forall>req ow h. fst (fst (client req ow h)) = []
                  \<and> (\<forall>a. snd (fst (client req ow h)) \<noteq> Returns_existing a))"

text \<open>The client raises whatever it is asked.\<close>

definition always_raises :: "'w validator_client \<Rightarrow> bool" where
  "always_raises client = (\<forall>req ow h. \<exists>e. snd (fst (client req ow h)) = Raises e)"

text \<open>
  The three fields that \<^verbatim>\<open>validate_claim\<close> copies from the claim, and the fallback
  values of a result that could not be judged.
\<close>

definition identifies :: "ValidationResult \<Rightarrow> Claim \<Rightarrow> bool" where
  "identifies r claim =
     (claim_id r = Claim.id claim
      \<and> ValidationResult.statement r = Claim.statement claim
      \<and> ValidationResult.verification_question r = Claim.verification_question claim)"

definition unverifiable_zero :: "ValidationResult \<Rightarrow> bool" where
  "unverifiable_zero r =
     (status r = UNVERIFIABLE \<and> confidence r = 0 \<and> \<not> ValidationResult.has_contradictions r)"

subsection \<open>The evidence set as the specification words it\<close>

text \<open>
  Section 4.4, step 1: the ID is among the claim's \<open>source_ids\<close>, the content is
  non-empty and does not start with the fetch-error sentinel of section 4.2,
  \<^verbatim>\<open>Error fetching content from {url}\<close>.
\<close>

definition spec_is_evidence :: "Claim \<Rightarrow> Source \<Rightarrow> bool" where
  "spec_is_evidence claim s =
     (Source.id s \<in> set (source_ids claim)
      \<and> (case content s of
           None \<Rightarrow> False
         | Some text \<Rightarrow> text \<noteq> [] \<and> \<not> prefix (ustr (fetch_error_prefix (url s))) text))"

section \<open>Report generator (validation.py, generate\_trust\_report)\<close>

definition initial_status_counts :: "string \<rightharpoonup> int" where
  "initial_status_counts = map_of
     [(''SUPPORTED'', 0),
      (''PARTIALLY_SUPPORTED'', 0),
      (''CONTRADICTED'', 0),
      (''UNVERIFIABLE'', 0)]"

text \<open>
  Lines 300 and 301: \<^verbatim>\<open>status_counts[result.status] += 1\<close> reads the entry first,
  which raises \<^verbatim>\<open>KeyError\<close> on a missing key.
\<close>

fun tally :: "(string \<rightharpoonup> int) \<Rightarrow> ValidationResult list \<Rightarrow> py_error + (string \<rightharpoonup> int)" where
  "tally status_counts [] = Inr status_counts"
| "tally status_counts (result # rest) =
     (case status_counts (status_str (status result)) of
        None \<Rightarrow> Inl (KeyError (status_str (status result)))
      | Some n \<Rightarrow> tally (status_counts(status_str (status result) \<mapsto> n + 1)) rest)"

text \<open>
  \<open>new_id\<close> and \<open>now\<close> are the UUID prefix and the timestamp drawn at lines 307 and
  308.
\<close>

definition generate_trust_report :: "ValidationResult list \<Rightarrow> string \<Rightarrow> string
                                       \<Rightarrow> py_error + TrustReport" where
  "generate_trust_report validation_results new_id now =
     (case tally initial_status_counts validation_results of
        Inl e \<Rightarrow> Inl e
      | Inr status_counts \<Rightarrow>
          (case calculate_trust_score validation_results of
             Inl e \<Rightarrow> Inl e
           | Inr score \<Rightarrow>
               Inr \<lparr>TrustReport.id = new_id,
                    timestamp = now,
                    trust_score = score,
                    claim_count = int (length validation_results),
                    results = status_counts,
                    has_contradictions =
                      list_ex ValidationResult.has_contradictions validation_results\<rparr>))"

section \<open>Pipeline (validation.py, validate\_report)\<close>

text \<open>
  Lines 330 to 335. The sources are mutated in place by \<^verbatim>\<open>fetch_sources\<close>, so the
  extracted report that is returned at the end holds the fetched contents too.
\<close>

definition retrieve :: "ExtractedReport \<Rightarrow> 'w firecrawl_client option \<Rightarrow> 'w world
                          \<Rightarrow> Source list \<times> 'w world" where
  "retrieve extracted firecrawl_app w =
     (if sources extracted = [] then ([], w)
      else fetch_sources (sources extracted) firecrawl_app w)"

text \<open>
  \<open>Inl\<close> is an exception leaving the function, \<open>Inr None\<close> the early return of
  \<^verbatim>\<open>None\<close>. The list of results is given with the objects as they are when the
  function returns.
\<close>

definition validate_report ::
  "string \<Rightarrow> 'w extractor_client \<Rightarrow> 'w validator_client \<Rightarrow> 'w firecrawl_client option
     \<Rightarrow> string \<Rightarrow> string \<Rightarrow> string \<Rightarrow> 'w world
     \<Rightarrow> (py_error + (TrustReport \<times> ValidationResult list \<times> ExtractedReport) option) \<times> 'w world" where
  "validate_report report_text extractor_client validator_client firecrawl_app
       report_id new_id now w =
     (case extract_claims_and_sources report_text extractor_client report_id w of
        (None, w1) \<Rightarrow> (Inr None, w1)
      | (Some extracted, w1) \<Rightarrow>
          if claims extracted = [] then (Inr None, w1)
          else
            (case retrieve extracted firecrawl_app w1 of
               (sources_with_content, w2) \<Rightarrow>
                 (case validate_all_claims (claims extracted) sources_with_content
                         validator_client w2 of
                    (validation_results, w3) \<Rightarrow>
                      if validation_results = [] then (Inr None, w3)
                      else
                        (case generate_trust_report (objects w3 validation_results)
                                new_id now of
                           Inl e \<Rightarrow> (Inl e, w3)
                         | Inr trust_report \<Rightarrow>
                             (Inr (Some (trust_report, objects w3 validation_results,
                                         extracted\<lparr>sources := sources_with_content\<rparr>)), w3)))))"

section \<open>Example data\<close>

definition example_sources :: "Source list" where
  "example_sources =
     [\<lparr>Source.id = ''m0'', url = ''http://a'', title = None, content = None\<rparr>,
      \<lparr>Source.id = ''m1'', url = ''http://b'', title = Some ''B'', content = None\<rparr>,
      \<lparr>Source.id = ''m2'', url = ''http://a'', title = None, content = None\<rparr>]"

definition example_claim :: Claim where
  "example_claim =
     \<lparr>Claim.id = ''c'', statement = ''The sky is blue.'',
      verification_question = ''Is the sky blue?'',
      source_urls = [''http://b'', ''http://x'', ''http://a'', ''http://b''],
      source_ids = []\<rparr>"

definition example_extractor :: "unit extractor_client" where
  "example_extractor report_text ow =
     (Inr \<lparr>claims = [example_claim], sources = example_sources\<rparr>, ow)"

definition world0 :: "unit world" where
  "world0 = \<lparr>outside = (), calls = [], heap = []\<rparr>"

definition error_page_source :: Source where
  "error_page_source =
     \<lparr>Source.id = ''source-r-0'', url = ''http://a'', title = None,
      content = Some (ustr ''Errors of measurement are discussed in section 2.'')\<rparr>"

definition failed_source :: Source where
  "failed_source =
     \<lparr>Source.id = ''source-r-0'', url = ''http://a'', title = None,
      content = Some (ustr ''Error fetching content from http://a: timeout'')\<rparr>"

definition good_source :: Source where
  "good_source =
     \<lparr>Source.id = ''source-r-0'', url = ''http://a'', title = None,
      content = Some (ustr ''The sky is blue.'')\<rparr>"

definition citing_claim :: Claim where
  "citing_claim =
     \<lparr>Claim.id = ''claim-r-0'', statement = ''The sky is blue.'',
      verification_question = ''Is the sky blue?'',
      source_urls = [''http://a''], source_ids = [''source-r-0'']\<rparr>"

definition other_claim :: Claim where
  "other_claim =
     \<lparr>Claim.id = ''claim-r-1'', statement = ''Water is wet.'',
      verification_question = ''Is water wet?'',
      source_urls = [''http://a''], source_ids = [''source-r-0'']\<rparr>"

definition failing_judge :: "unit validator_client" where
  "failing_judge req ow h = (([], Raises ''timeout''), ow)"

definition stub_result :: ValidationResult where
  "stub_result =
     \<lparr>claim_id = ''made-up'', statement = ''made-up'', verification_question = ''made-up'',
      status = SUPPORTED, confidence = 3 / 4, reasoning = ''[source-r-0] says so'',
      has_contradictions = False\<rparr>"

definition stub_judge :: "unit validator_client" where
  "stub_judge req ow h = (([], Returns_new stub_result), ow)"

definition flaky_judge :: "unit validator_client" where
  "flaky_judge req ow h =
     (if req_claim req = ''The sky is blue.'' then (([], Raises ''timeout''), ow)
      else stub_judge req ow h)"

text \<open>
  A client that creates one result object, on its first call, and returns this object
  from every call.
\<close>

definition shared_judge :: "unit validator_client" where
  "shared_judge req ow h =
     (([], if h = [] then Returns_new stub_result else Returns_existing 0), ow)"

subsection \<open>Counting results by status\<close>

text \<open>
  The number of results with a given status, and a dictionary with the four status
  keys, to state what the tally of the report generator holds.
\<close>

definition count_status :: "Status \<Rightarrow> ValidationResult list \<Rightarrow> int" where
  "count_status s rs = int (length (filter (\<lambda>r. status r = s) rs))"

definition counts_dict :: "int \<Rightarrow> int \<Rightarrow> int \<Rightarrow> int \<Rightarrow> (string \<rightharpoonup> int)" where
  "counts_dict a b c d = map_of
     [(''SUPPORTED'', a),
      (''PARTIALLY_SUPPORTED'', b),
      (''CONTRADICTED'', c),
      (''UNVERIFIABLE'', d)]"

subsection \<open>Texts without long runs of whitespace\<close>

text \<open>
  \<open>no_ws3\<close>: nowhere three whitespace characters in a row. \<open>not_space_first\<close>:
  the text is empty or starts with a character that is not whitespace.
\<close>

fun no_ws3 :: "unicode \<Rightarrow> bool" where
  "no_ws3 (a # b # c # cs) = (\<not> (isspace a \<and> isspace b \<and> isspace c) \<and> no_ws3 (b # c # cs))"
| "no_ws3 cs = True"

definition not_space_first :: "unicode \<Rightarrow> bool" where
  "not_space_first s = (case s of [] \<Rightarrow> True | c # cs \<Rightarrow> \<not> isspace c)"

subsection \<open>An example scraping client\<close>

definition example_firecrawl :: "unit firecrawl_client" where
  "example_firecrawl u ow =
     (if u = ''http://a'' then (Inr (With_markdown (ustr ''  The   sky is  blue. '')), ow)
      else if u = ''http://b'' then (Inl ''timeout'', ow)
      else (Inr Falsy, ow))"

text \<open>
  A client whose responses have a markdown text without any visible character: the
  empty text for one URL, and a space, an ideographic space (U+3000) and a newline for
  the others.
\<close>

definition blank_firecrawl :: "unit firecrawl_client" where
  "blank_firecrawl u ow =
     (Inr (With_markdown (if u = ''http://a'' then [] else [0x20, 0x3000, 0x0A])), ow)"

subsection \<open>Example extraction clients\<close>

definition failing_extractor :: "unit extractor_client" where
  "failing_extractor report_text ow = (Inl ''malformed response'', ow)"

definition no_sources_extractor :: "unit extractor_client" where
  "no_sources_extractor report_text ow =
     (Inr \<lparr>claims = [example_claim], sources = []\<rparr>, ow)"

section \<open>Properties of floating-point rounding\<close>

lemma ilog2_bounds:
  assumes "0 < x"
  shows "2 powi (ilog2 x) \<le> x \<and> x < 2 powi (ilog2 x + 1)"
proof (cases "1 \<le> x")
  case True
  let ?n = "\<lfloor>x\<rfloor>"
  let ?b = "bitlen ?n"
  have n: "0 < ?n" using True by simp
  then have b: "1 \<le> ?b" by (simp add: bitlen_alt_def)
  from bitlen_bounds [OF n]
  have lo: "2 ^ nat (?b - 1) \<le> ?n" and hi: "?n < 2 ^ nat ?b" by simp_all
  have "(2::real) powi (?b - 1) = 2 ^ nat (?b - 1)"
    using b by (simp add: power_int_def)
  also have "\<dots> = of_int (2 ^ nat (?b - 1))" by simp
  also have "\<dots> \<le> of_int ?n" using lo by (simp only: of_int_le_iff)
  also have "\<dots> \<le> x" by simp
  finally have 1: "2 powi (?b - 1) \<le> x" .
  have "?n + 1 \<le> 2 ^ nat ?b" using hi by simp
  then have "of_int (?n + 1) \<le> (of_int (2 ^ nat ?b) :: real)" by (simp only: of_int_le_iff)
  then have A: "of_int ?n + 1 \<le> (2::real) ^ nat ?b" by simp
  have B: "x < of_int ?n + 1" by linarith
  from A B have "x < 2 ^ nat ?b" by linarith
  also have "(2::real) ^ nat ?b = 2 powi ?b" using b by (simp add: power_int_def)
  finally have 2: "x < 2 powi ?b" .
  show ?thesis using True 1 2 by (simp add: ilog2_def)
next
  case False
  then have x1: "x < 1" by simp
  let ?c = "\<lceil>1 / x\<rceil>"
  let ?b = "bitlen (?c - 1)"
  have inv: "1 < 1 / x" using assms x1 by simp
  then have c: "0 < ?c - 1" by (simp add: less_ceiling_iff)
  then have b: "1 \<le> ?b" by (simp add: bitlen_alt_def)
  from bitlen_bounds [OF c]
  have lo: "2 ^ nat (?b - 1) \<le> ?c - 1" and hi: "?c - 1 < 2 ^ nat ?b" by simp_all
  have E: "of_int (?c - 1) < 1 / x" by linarith
  have "(of_int (2 ^ nat (?b - 1)) :: real) \<le> of_int (?c - 1)"
    using lo by (simp only: of_int_le_iff)
  then have F: "(2::real) ^ nat (?b - 1) \<le> of_int (?c - 1)" by simp
  from E F have "2 ^ nat (?b - 1) < 1 / x" by linarith
  then have "x * 2 ^ nat (?b - 1) < 1" using assms by (simp add: field_simps)
  then have "x < inverse (2 ^ nat (?b - 1))" by (simp add: field_simps)
  also have "inverse ((2::real) ^ nat (?b - 1)) = 2 powi (- ?b + 1)"
  proof -
    have "(2::real) powi (- (?b - 1)) = inverse (2 powi (?b - 1))" by (rule power_int_minus)
    also have "(2::real) powi (?b - 1) = 2 ^ nat (?b - 1)" using b by (simp add: power_int_def)
    finally show ?thesis by simp
  qed
  finally have 2: "x < 2 powi (- ?b + 1)" .
  have "?c \<le> 2 ^ nat ?b" using hi by simp
  then have "(of_int ?c :: real) \<le> of_int (2 ^ nat ?b)" by (simp only: of_int_le_iff)
  then have C: "(of_int ?c :: real) \<le> 2 ^ nat ?b" by simp
  have D: "1 / x \<le> of_int ?c" by (rule le_of_int_ceiling)
  from C D have "1 / x \<le> 2 ^ nat ?b" by linarith
  then have "1 \<le> x * 2 ^ nat ?b" using assms by (simp add: field_simps)
  then have "inverse (2 ^ nat ?b) \<le> x" by (simp add: field_simps)
  moreover have "inverse ((2::real) ^ nat ?b) = 2 powi (- ?b)"
  proof -
    have "(2::real) powi (- ?b) = inverse (2 powi ?b)" by (rule power_int_minus)
    also have "(2::real) powi ?b = 2 ^ nat ?b" using b by (simp add: power_int_def)
    finally show ?thesis by simp
  qed
  ultimately have 1: "2 powi (- ?b) \<le> x" by simp
  show ?thesis using False 1 2 by (simp add: ilog2_def)
qed

lemma ilog2_unique:
  assumes "0 < x" and "2 powi e \<le> x" and "x < 2 powi (e + 1)"
  shows "ilog2 x = e"
proof -
  let ?i = "ilog2 x"
  from ilog2_bounds [OF assms(1)]
  have lo: "2 powi ?i \<le> x" and hi: "x < 2 powi (?i + 1)" by simp_all
  have "\<not> ?i < e"
  proof
    assume "?i < e"
    then have "?i + 1 \<le> e" by simp
    then have "(2::real) powi (?i + 1) \<le> 2 powi e" by (intro power_int_increasing) simp_all
    then show False using hi assms(2) by linarith
  qed
  moreover have "\<not> e < ?i"
  proof
    assume "e < ?i"
    then have "e + 1 \<le> ?i" by simp
    then have "(2::real) powi (e + 1) \<le> 2 powi ?i" by (intro power_int_increasing) simp_all
    then show False using lo assms(3) by linarith
  qed
  ultimately show ?thesis by simp
qed


lemma py_round_bounds: "\<lfloor>z\<rfloor> \<le> py_round z \<and> py_round z \<le> \<lfloor>z\<rfloor> + 1"
  by (simp add: py_round_def Let_def)

lemma py_round_of_int: "py_round (of_int k) = k"
  by (simp add: py_round_def)



lemma fl_zero: "fl 0 = 0"
  by (simp add: fl_def)

lemma fl_minus: "fl (- x) = - fl x"
  by (simp add: fl_def Let_def)

lemma fl_pos:
  "0 < x \<Longrightarrow> fl x = of_int (py_round (x / 2 powi (ilog2 x - 52))) * 2 powi (ilog2 x - 52)"
  by (simp add: fl_def Let_def)

lemma scaled_bounds:
  assumes "0 < x"
  shows "2 ^ 52 \<le> x / 2 powi (ilog2 x - 52) \<and> x / 2 powi (ilog2 x - 52) < 2 ^ 53"
proof -
  let ?e = "ilog2 x"
  let ?u = "(2::real) powi (?e - 52)"
  have u: "0 < ?u" by simp
  have a: "(2::real) powi ?e = 2 ^ 52 * ?u"
    using power_int_add [of "2::real" 52 "?e - 52"] by simp
  have b: "(2::real) powi (?e + 1) = 2 ^ 53 * ?u"
    using power_int_add [of "2::real" 53 "?e - 52"] by (simp add: add.commute)
  from ilog2_bounds [OF assms] have "2 ^ 52 * ?u \<le> x" "x < 2 ^ 53 * ?u"
    unfolding a b by simp_all
  then show ?thesis using u by (simp add: field_simps)
qed

lemma mantissa_bounds:
  assumes "0 < x"
  shows "2 ^ 52 \<le> py_round (x / 2 powi (ilog2 x - 52))
         \<and> py_round (x / 2 powi (ilog2 x - 52)) \<le> 2 ^ 53"
proof -
  let ?z = "x / 2 powi (ilog2 x - 52)"
  from scaled_bounds [OF assms] have lo: "2 ^ 52 \<le> ?z" and hi: "?z < 2 ^ 53" by simp_all
  have "(2::int) ^ 52 \<le> \<lfloor>?z\<rfloor>"
    using lo by (simp add: le_floor_iff)
  moreover have "\<lfloor>?z\<rfloor> < (2::int) ^ 53"
    using hi by (simp add: floor_less_iff)
  ultimately show ?thesis using py_round_bounds [of ?z] by linarith
qed

lemma fl_pos_pos: "0 < x \<Longrightarrow> 0 < fl x"
proof -
  assume x: "0 < x"
  have "0 < py_round (x / 2 powi (ilog2 x - 52))"
    using mantissa_bounds [OF x] by (smt (verit) zero_less_power)
  then show ?thesis using x by (simp add: fl_pos)
qed

lemma fl_nonneg: "0 \<le> x \<Longrightarrow> 0 \<le> fl x"
  using fl_pos_pos [of x] fl_zero by (cases "x = 0") (auto simp: less_eq_real_def)

lemma fl_of_mantissa:
  assumes "2 ^ 52 \<le> k" and "k < 2 ^ 53"
  shows "fl (of_int k * 2 powi d) = of_int k * 2 powi d"
proof -
  let ?y = "of_int k * (2::real) powi d"
  have k0: "0 < k" using assms(1) by (smt (verit) zero_less_power)
  then have y: "0 < ?y" by simp
  have "(2::real) powi (d + 52) = 2 ^ 52 * 2 powi d"
    using power_int_add [of "2::real" 52 d] by (simp add: add.commute)
  moreover have "(2::real) ^ 52 \<le> of_int k" using assms(1) by (metis of_int_le_iff of_int_numeral of_int_power)
  ultimately have lo: "2 powi (d + 52) \<le> ?y" by simp
  have "(2::real) powi (d + 52 + 1) = 2 ^ 53 * 2 powi d"
    using power_int_add [of "2::real" 53 d] by (simp add: add.commute)
  moreover have "of_int k < (2::real) ^ 53" using assms(2) by (metis of_int_less_iff of_int_numeral of_int_power)
  ultimately have hi: "?y < 2 powi (d + 52 + 1)" by simp
  have e: "ilog2 ?y = d + 52" using y lo hi by (rule ilog2_unique)
  have "?y / 2 powi (ilog2 ?y - 52) = of_int k" by (simp add: e)
  then show ?thesis using y by (simp add: fl_pos py_round_of_int e)
qed

lemma fl_idem_pos:
  assumes "0 < x"
  shows "fl (fl x) = fl x"
proof -
  let ?e = "ilog2 x"
  let ?k = "py_round (x / 2 powi (?e - 52))"
  have f: "fl x = of_int ?k * 2 powi (?e - 52)" using assms by (rule fl_pos)
  from mantissa_bounds [OF assms] have lo: "2 ^ 52 \<le> ?k" and hi: "?k \<le> 2 ^ 53" by simp_all
  show ?thesis
  proof (cases "?k < 2 ^ 53")
    case True
    then show ?thesis unfolding f using lo by (intro fl_of_mantissa)
  next
    case False
    then have k: "?k = 2 ^ 53" using hi by simp
    have "of_int ?k * (2::real) powi (?e - 52) = of_int (2 ^ 52) * 2 powi (?e - 51)"
      using power_int_add [of "2::real" 1 "?e - 52"] by (simp add: k)
    moreover have "fl (of_int (2 ^ 52) * 2 powi (?e - 51)) = of_int (2 ^ 52) * 2 powi (?e - 51)"
      by (intro fl_of_mantissa) simp_all
    ultimately show ?thesis unfolding f by simp
  qed
qed

lemma fl_idem: "fl (fl x) = fl x"
proof (cases "x = 0")
  case True
  then show ?thesis by (simp add: fl_zero)
next
  case False
  show ?thesis
  proof (cases "0 < x")
    case True
    then show ?thesis by (rule fl_idem_pos)
  next
    case neg: False
    then have "0 < - x" using False by simp
    then have "fl (fl (- x)) = fl (- x)" by (rule fl_idem_pos)
    then show ?thesis by (simp add: fl_minus)
  qed
qed





section \<open>Properties of the trust scorer\<close>

lemma float_of_int_0: "float_of_int 0 = 0"
  by (simp add: float_of_int_def fl_zero)

lemma float_of_int_pos: "0 < n \<Longrightarrow> 0 < float_of_int n"
  by (simp add: float_of_int_def fl_pos_pos)

lemma float_of_int_nonneg: "0 \<le> n \<Longrightarrow> 0 \<le> float_of_int n"
  by (simp add: float_of_int_def fl_nonneg)

lemma weight_eq: "dict_get weights (status_str s) 0 = spec_weight s"
  by (cases s) (simp_all add: dict_get_def weights_def)

lemma spec_weight_nonneg: "0 \<le> spec_weight s"
  by (cases s) (simp_all add: fl_nonneg)

lemma foldl_fadd_nonneg: "0 \<le> a \<Longrightarrow> \<forall>x\<in>set xs. 0 \<le> x \<Longrightarrow> 0 \<le> foldl fadd a xs"
  by (induction xs arbitrary: a) (simp_all add: fadd_def fl_nonneg)

lemma py_sum_weights_nonneg: "0 \<le> py_sum (map (\<lambda>r. spec_weight (status r)) rs)"
  unfolding py_sum_def by (rule foldl_fadd_nonneg) (auto simp: spec_weight_nonneg)

lemma contradictions_eq: "contradictions_within_claim rs = int (spec_flagged rs)"
  unfolding contradictions_within_claim_def spec_flagged_def
  by (induction rs) simp_all

lemma penalty_eq: "contradiction_penalty (int (spec_flagged rs)) = spec_penalty rs"
  unfolding contradiction_penalty_def spec_penalty_def by (simp add: mult.commute)



lemma spec_base_nonneg: "0 \<le> spec_base rs"
  unfolding spec_base_def fmul_def
  by (intro fl_nonneg mult_nonneg_nonneg divide_nonneg_nonneg py_sum_weights_nonneg
        float_of_int_nonneg) simp_all

lemma spec_base_float: "fl (spec_base rs) = spec_base rs"
  unfolding spec_base_def fmul_def by (rule fl_idem)

lemma score_unfold:
  assumes ne: "rs \<noteq> []"
  shows "calculate_trust_score rs =
           Inr (round1 (py_max0 (fsub (spec_base rs) (float_of_int (spec_penalty rs)))))"
proof -
  have len: "0 < int (length rs)" using ne by simp
  have d: "float_of_int (int (length rs)) \<noteq> 0"
    using float_of_int_pos [OF len] by simp
  have code: "calculate_trust_score rs =
      Inr (round1 (if 0 < int (spec_flagged rs)
                   then py_max0 (fsub (spec_base rs) (float_of_int (spec_penalty rs)))
                   else spec_base rs))"
    using ne d
    by (simp add: calculate_trust_score_def py_truediv_def Let_def weight_eq
          contradictions_eq spec_base_def penalty_eq)
  show ?thesis
  proof (cases "spec_flagged rs = 0")
    case True
    then have p: "spec_penalty rs = 0" by (simp add: spec_penalty_def)
    have "py_max0 (fsub (spec_base rs) (float_of_int (spec_penalty rs))) = spec_base rs"
      using spec_base_nonneg [of rs]
      by (simp add: p float_of_int_0 fsub_def spec_base_float py_max0_def)
    then show ?thesis using True by (simp add: code)
  next
    case False
    then show ?thesis by (simp add: code)
  qed
qed

lemma spec_base_cong:
  assumes "map status rs1 = map status rs2"
  shows "spec_base rs1 = spec_base rs2"
proof -
  have "map spec_weight (map status rs1) = map spec_weight (map status rs2)"
    using assms by simp
  then have "map (\<lambda>r. spec_weight (status r)) rs1 = map (\<lambda>r. spec_weight (status r)) rs2"
    by (simp add: comp_def)
  moreover have "length rs1 = length rs2"
    using assms by (rule map_eq_imp_length_eq)
  ultimately show ?thesis
    unfolding spec_base_def by simp
qed

lemma spec_flagged_map:
  "spec_flagged rs = length (filter (\<lambda>b. b) (map ValidationResult.has_contradictions rs))"
  unfolding spec_flagged_def by (induction rs) simp_all



text \<open>
  Claim C8. The penalty the scorer subtracts, \<open>contradiction_penalty\<close> of the number
  of flagged results, does not decrease when the number of flagged results grows, is 20
  for four flagged results or more (so for 5 and for 9), and never exceeds 20.
\<close>

theorem penalty_monotone_capped:
  "(contradictions_within_claim rs1 \<le> contradictions_within_claim rs2 \<longrightarrow>
      contradiction_penalty (contradictions_within_claim rs1)
        \<le> contradiction_penalty (contradictions_within_claim rs2))
   \<and> (4 \<le> contradictions_within_claim rs \<longrightarrow>
        contradiction_penalty (contradictions_within_claim rs) = 20)
   \<and> contradiction_penalty (contradictions_within_claim rs) \<le> 20
   \<and> 0 \<le> contradiction_penalty (contradictions_within_claim rs)
   \<and> (rs \<noteq> [] \<longrightarrow>
        calculate_trust_score rs =
          Inr (round1 (py_max0 (fsub (spec_base rs)
                 (float_of_int (contradiction_penalty (contradictions_within_claim rs)))))))"
proof -
  have "rs \<noteq> [] \<longrightarrow>
        calculate_trust_score rs =
          Inr (round1 (py_max0 (fsub (spec_base rs)
                 (float_of_int (contradiction_penalty (contradictions_within_claim rs))))))"
    by (simp add: score_unfold contradictions_eq penalty_eq)
  moreover have "0 \<le> contradiction_penalty (contradictions_within_claim rs)"
    by (simp add: contradictions_eq contradiction_penalty_def)
  moreover have "contradictions_within_claim rs1 \<le> contradictions_within_claim rs2 \<longrightarrow>
      contradiction_penalty (contradictions_within_claim rs1)
        \<le> contradiction_penalty (contradictions_within_claim rs2)"
    unfolding contradiction_penalty_def by linarith
  moreover have "4 \<le> contradictions_within_claim rs \<longrightarrow>
        contradiction_penalty (contradictions_within_claim rs) = 20"
    unfolding contradiction_penalty_def by linarith
  moreover have "contradiction_penalty (contradictions_within_claim rs) \<le> 20"
    unfolding contradiction_penalty_def by linarith
  ultimately show ?thesis
    by blast
qed

theorem penalty_monotone_capped_witness:
  "contradictions_within_claim (replicate 5 (mk_result SUPPORTED 1 True)) = 5
   \<and> contradictions_within_claim (replicate 9 (mk_result SUPPORTED 1 True)) = 9
   \<and> contradiction_penalty 5 = 20 \<and> contradiction_penalty 9 = 20
   \<and> contradiction_penalty 5 \<le> contradiction_penalty 9
   \<and> calculate_trust_score (replicate 5 (mk_result SUPPORTED 1 True)) = Inr 80"
proof -
  let ?a = "replicate 5 (mk_result SUPPORTED 1 True)"
  let ?b = "replicate 9 (mk_result SUPPORTED 1 True)"
  have a: "contradictions_within_claim ?a = 5"
    by (simp add: contradictions_within_claim_def mk_result_def numeral_eq_Suc)
  have b: "contradictions_within_claim ?b = 9"
    by (simp add: contradictions_within_claim_def mk_result_def numeral_eq_Suc)
  have r: "round1 (py_max0 (fsub (spec_base ?a) (float_of_int 20))) = 80"
    by code_simp
  have ne: "?a \<noteq> []" by (simp add: numeral_eq_Suc)
  from penalty_monotone_capped [of ?a ?b ?a]
  have "contradiction_penalty 5 \<le> contradiction_penalty 9"
    and "contradiction_penalty 5 = 20"
    and "calculate_trust_score ?a
           = Inr (round1 (py_max0 (fsub (spec_base ?a) (float_of_int (contradiction_penalty 5)))))"
    using ne by (simp_all only: a b) simp_all
  moreover from penalty_monotone_capped [of ?a ?b ?b]
  have "contradiction_penalty 9 = 20" by (simp add: b)
  ultimately show ?thesis using a b r by simp
qed

text \<open>
  Claim C9. Two result lists that agree position by position on \<open>status\<close> and on
  \<open>has_contradictions\<close> get the same trust score, whatever their confidences and
  their other fields are.
\<close>

theorem score_ignores_confidence:
  assumes "map status rs1 = map status rs2"
    and "map ValidationResult.has_contradictions rs1 = map ValidationResult.has_contradictions rs2"
  shows "calculate_trust_score rs1 = calculate_trust_score rs2"
proof (cases "rs1 = []")
  case True
  then show ?thesis using assms(1) by simp
next
  case False
  then have ne: "rs2 \<noteq> []" using assms(1) by auto
  have "spec_penalty rs1 = spec_penalty rs2"
    unfolding spec_penalty_def spec_flagged_map using assms(2) by simp
  then show ?thesis
    using False ne spec_base_cong [OF assms(1)] by (simp add: score_unfold)
qed

theorem score_ignores_confidence_witness:
  "map status [mk_result SUPPORTED (3 / 4) True, mk_result UNVERIFIABLE 0 False]
     = map status [mk_result SUPPORTED (1 / 4) True, mk_result UNVERIFIABLE 1 False]
   \<and> map confidence [mk_result SUPPORTED (3 / 4) True, mk_result UNVERIFIABLE 0 False]
     \<noteq> map confidence [mk_result SUPPORTED (1 / 4) True, mk_result UNVERIFIABLE 1 False]
   \<and> calculate_trust_score [mk_result SUPPORTED (3 / 4) True, mk_result UNVERIFIABLE 0 False]
     = calculate_trust_score [mk_result SUPPORTED (1 / 4) True, mk_result UNVERIFIABLE 1 False]"
  using score_ignores_confidence
    [of "[mk_result SUPPORTED (3 / 4) True, mk_result UNVERIFIABLE 0 False]"
        "[mk_result SUPPORTED (1 / 4) True, mk_result UNVERIFIABLE 1 False]"]
  by (simp add: mk_result_def)

section \<open>Properties of extraction and claim linking\<close>

lemma url_to_source_id_snoc:
  "url_to_source_id (srcs @ [s]) = (url_to_source_id srcs)(url s \<mapsto> Source.id s)"
  by (simp add: url_to_source_id_def)

lemma url_to_source_id_Nil: "url_to_source_id [] = Map.empty"
  by (simp add: url_to_source_id_def)

lemma url_to_source_id_is_last:
  assumes "url_to_source_id srcs u = Some x"
  shows "\<exists>k < length srcs. url (srcs ! k) = u \<and> Source.id (srcs ! k) = x
           \<and> (\<forall>k'. k < k' \<and> k' < length srcs \<longrightarrow> url (srcs ! k') \<noteq> u)"
  using assms
proof (induction srcs rule: rev_induct)
  case Nil
  then show ?case by (simp add: url_to_source_id_Nil)
next
  case (snoc s srcs)
  let ?ys = "srcs @ [s]"
  show ?case
  proof (cases "url s = u")
    case True
    then have "Source.id s = x"
      using snoc.prems by (simp add: url_to_source_id_snoc)
    then have "length srcs < length ?ys" "url (?ys ! length srcs) = u"
      "Source.id (?ys ! length srcs) = x"
      "\<forall>k'. length srcs < k' \<and> k' < length ?ys \<longrightarrow> url (?ys ! k') \<noteq> u"
      using True by auto
    then show ?thesis by blast
  next
    case False
    then have "url_to_source_id srcs u = Some x"
      using snoc.prems by (simp add: url_to_source_id_snoc)
    then obtain k where k: "k < length srcs" "url (srcs ! k) = u" "Source.id (srcs ! k) = x"
      "\<forall>k'. k < k' \<and> k' < length srcs \<longrightarrow> url (srcs ! k') \<noteq> u"
      using snoc.IH by blast
    have "\<forall>k'. k < k' \<and> k' < length ?ys \<longrightarrow> url (?ys ! k') \<noteq> u"
    proof (intro allI impI)
      fix k' assume a: "k < k' \<and> k' < length ?ys"
      show "url (?ys ! k') \<noteq> u"
      proof (cases "k' < length srcs")
        case True
        then show ?thesis using k(4) a by (simp add: nth_append)
      next
        case False
        then have "k' = length srcs" using a by simp
        then show ?thesis using \<open>url s \<noteq> u\<close> by simp
      qed
    qed
    moreover have "k < length ?ys" "url (?ys ! k) = u" "Source.id (?ys ! k) = x"
      using k(1,2,3) by (simp_all add: nth_append)
    ultimately show ?thesis by blast
  qed
qed

lemma url_to_source_id_source:
  assumes "url_to_source_id srcs u = Some x"
  shows "\<exists>s \<in> set srcs. url s = u \<and> Source.id s = x"
proof -
  from assms obtain k where "k < length srcs" "url (srcs ! k) = u" "Source.id (srcs ! k) = x"
    using url_to_source_id_is_last by blast
  then show ?thesis using nth_mem by blast
qed

lemma dom_url_to_source_id: "dom (url_to_source_id srcs) = url ` set srcs"
proof (induction srcs rule: rev_induct)
  case Nil
  show ?case by (simp add: url_to_source_id_Nil)
next
  case (snoc s srcs)
  have "dom (url_to_source_id (srcs @ [s])) = insert (url s) (dom (url_to_source_id srcs))"
    unfolding url_to_source_id_snoc by simp
  then show ?case using snoc.IH by simp
qed

lemma kept_map_filter:
  "concat (map (\<lambda>source_id. case source_id of None \<Rightarrow> [] | Some i \<Rightarrow> [i])
             (map (\<lambda>u. d u) (filter (\<lambda>u. d u \<noteq> None) us)))
     = List.map_filter d us"
  by (induction us) (auto split: option.splits)

lemma source_ids_link_claim:
  "source_ids (link_claim d c) = List.map_filter d (source_urls c)"
  unfolding link_claim_def Let_def kept_map_filter by simp

lemma set_map_filter: "set (List.map_filter d us) = {i. \<exists>u \<in> set us. d u = Some i}"
  by (induction us) (auto split: option.splits)

lemma url_to_source_id_of_last:
  assumes "j < length srcs"
    and "\<forall>k. j < k \<and> k < length srcs \<longrightarrow> url (srcs ! k) \<noteq> url (srcs ! j)"
  shows "url_to_source_id srcs (url (srcs ! j)) = Some (Source.id (srcs ! j))"
proof -
  have "url (srcs ! j) \<in> dom (url_to_source_id srcs)"
    unfolding dom_url_to_source_id using assms(1) by simp
  then obtain x where x: "url_to_source_id srcs (url (srcs ! j)) = Some x" by blast
  then obtain k where k: "k < length srcs" "url (srcs ! k) = url (srcs ! j)"
    "Source.id (srcs ! k) = x"
    "\<forall>k'. k < k' \<and> k' < length srcs \<longrightarrow> url (srcs ! k') \<noteq> url (srcs ! j)"
    using url_to_source_id_is_last by blast
  have "\<not> j < k" using assms(2) k(1,2) by blast
  moreover have "\<not> k < j" using k(4) assms(1) by blast
  ultimately have "k = j" by simp
  then show ?thesis using x k(3) by simp
qed

lemma digit_char_inj: "a < 10 \<Longrightarrow> b < 10 \<Longrightarrow> digit_char a = digit_char b \<Longrightarrow> a = b"
  unfolding digit_char_def by (simp add: char_of_eq_iff take_bit_eq_mod)

lemma str_nat_nonempty: "str_nat n \<noteq> []"
  by (subst str_nat.simps) simp

lemma str_nat_inj: "str_nat m = str_nat n \<Longrightarrow> m = n"
proof (induction m arbitrary: n rule: str_nat.induct)
  case (1 m)
  show ?case
  proof (cases "m < 10")
    case small_m: True
    show ?thesis
    proof (cases "n < 10")
      case True
      then show ?thesis using small_m "1.prems" digit_char_inj
        by (simp add: str_nat.simps [of m] str_nat.simps [of n])
    next
      case False
      then show ?thesis using small_m "1.prems" str_nat_nonempty [of "n div 10"]
        by (simp add: str_nat.simps [of m] str_nat.simps [of n])
    qed
  next
    case big_m: False
    show ?thesis
    proof (cases "n < 10")
      case True
      then show ?thesis using big_m "1.prems" str_nat_nonempty [of "m div 10"]
        by (simp add: str_nat.simps [of m] str_nat.simps [of n])
    next
      case False
      then have "str_nat (m div 10) = str_nat (n div 10)"
        and d: "digit_char (m mod 10) = digit_char (n mod 10)"
        using big_m "1.prems" by (simp_all add: str_nat.simps [of m] str_nat.simps [of n])
      then have "m div 10 = n div 10" using "1.IH" big_m by blast
      moreover have "m mod 10 = n mod 10" using d by (intro digit_char_inj) simp_all
      ultimately show ?thesis by (metis div_mult_mod_eq)
    qed
  qed
qed

lemma source_id_str_inj: "source_id_str rid i = source_id_str rid j \<Longrightarrow> i = j"
  unfolding source_id_str_def by (simp add: str_nat_inj)

lemma length_assign_source_ids: "length (assign_source_ids rid raw) = length raw"
  by (simp add: assign_source_ids_def)

lemma nth_assign_source_ids:
  "k < length raw \<Longrightarrow>
     assign_source_ids rid raw ! k = (raw ! k)\<lparr>Source.id := source_id_str rid k\<rparr>"
  by (simp add: assign_source_ids_def nth_enumerate_eq)

lemma url_assign_source_ids:
  "k < length raw \<Longrightarrow> url (assign_source_ids rid raw ! k) = url (raw ! k)"
  by (simp add: nth_assign_source_ids)

lemma id_assign_source_ids:
  "k < length raw \<Longrightarrow> Source.id (assign_source_ids rid raw ! k) = source_id_str rid k"
  by (simp add: nth_assign_source_ids)

lemma link_claims_subset:
  assumes "c \<in> set (link_claims srcs cs)"
  shows "set (source_ids c) \<subseteq> Source.id ` set srcs"
proof
  fix i assume i: "i \<in> set (source_ids c)"
  from assms obtain c0 where "c = link_claim (url_to_source_id srcs) c0"
    unfolding link_claims_def by auto
  then have "i \<in> set (List.map_filter (url_to_source_id srcs) (source_urls c0))"
    using i by (simp add: source_ids_link_claim)
  then obtain u where "url_to_source_id srcs u = Some i"
    unfolding set_map_filter by blast
  then obtain s where "s \<in> set srcs" "Source.id s = i"
    using url_to_source_id_source by blast
  then show "i \<in> Source.id ` set srcs" by blast
qed

lemma extract_Some:
  assumes "extract_claims_and_sources report_text client rid w = (Some rep, w')"
  shows "\<exists>cs. claims rep = link_claims (sources rep) cs"
proof -
  obtain r w1 where r: "invoke client Extract_call report_text w = (r, w1)"
    by (cases "invoke client Extract_call report_text w")
  show ?thesis
  proof (cases r)
    case (Inl e)
    then show ?thesis using assms r by (simp add: extract_claims_and_sources_def)
  next
    case (Inr raw)
    then have "rep = \<lparr>claims = link_claims (assign_source_ids rid (sources raw))
                                  (assign_claim_ids rid (claims raw)),
                       sources = assign_source_ids rid (sources raw)\<rparr>"
      using assms r by (simp add: extract_claims_and_sources_def Let_def)
    then show ?thesis by auto
  qed
qed

text \<open>
  Claim C4. Claim linking gives every claim, as \<open>source_ids\<close>, the list obtained by
  looking each of its \<open>source_urls\<close> up in the URL-to-ID dictionary, in order, a URL
  that is not a key being dropped and a repeated URL giving a repeated ID; nothing
  raises. The keys of the dictionary are the URLs of the sources and each value is the
  ID of a source with that URL, so every element of \<open>source_ids\<close> is the ID of a
  source of the list, also in the report that extraction returns.
\<close>

theorem claim_linking:
  "map source_ids (link_claims srcs cs)
     = map (\<lambda>c. List.map_filter (url_to_source_id srcs) (source_urls c)) cs
   \<and> (\<forall>c \<in> set (link_claims srcs cs). set (source_ids c) \<subseteq> Source.id ` set srcs)
   \<and> dom (url_to_source_id srcs) = url ` set srcs
   \<and> (\<forall>u i. url_to_source_id srcs u = Some i \<longrightarrow> (\<exists>s \<in> set srcs. url s = u \<and> Source.id s = i))
   \<and> (\<forall>rep w'. extract_claims_and_sources report_text client rid w = (Some rep, w') \<longrightarrow>
         (\<forall>c \<in> set (claims rep). set (source_ids c) \<subseteq> Source.id ` set (sources rep)))"
proof (intro conjI)
  show "map source_ids (link_claims srcs cs)
     = map (\<lambda>c. List.map_filter (url_to_source_id srcs) (source_urls c)) cs"
    by (simp add: link_claims_def source_ids_link_claim)
  show "\<forall>c \<in> set (link_claims srcs cs). set (source_ids c) \<subseteq> Source.id ` set srcs"
    using link_claims_subset by blast
  show "dom (url_to_source_id srcs) = url ` set srcs"
    by (rule dom_url_to_source_id)
  show "\<forall>u i. url_to_source_id srcs u = Some i \<longrightarrow> (\<exists>s \<in> set srcs. url s = u \<and> Source.id s = i)"
    using url_to_source_id_source by blast
  show "\<forall>rep w'. extract_claims_and_sources report_text client rid w = (Some rep, w') \<longrightarrow>
         (\<forall>c \<in> set (claims rep). set (source_ids c) \<subseteq> Source.id ` set (sources rep))"
    using extract_Some link_claims_subset by metis
qed

lemma example_map:
  "url_to_source_id example_sources ''http://a'' = Some ''m2''"
  "url_to_source_id example_sources ''http://b'' = Some ''m1''"
  "url_to_source_id example_sources ''http://x'' = None"
  by (simp_all add: url_to_source_id_def example_sources_def)

lemma example_ids:
  "source_id_str ''r'' 0 = ''source-r-0''"
  "source_id_str ''r'' 1 = ''source-r-1''"
  "source_id_str ''r'' 2 = ''source-r-2''"
  "source_id_str ''r'' (Suc 0) = ''source-r-1''"
  "source_id_str ''r'' (Suc (Suc 0)) = ''source-r-2''"
  by code_simp+

lemma claim_id_str_0: "claim_id_str ''r'' 0 = ''claim-r-0''"
  by code_simp

lemma example_assigned:
  "assign_source_ids ''r'' example_sources =
     [\<lparr>Source.id = ''source-r-0'', url = ''http://a'', title = None, content = None\<rparr>,
      \<lparr>Source.id = ''source-r-1'', url = ''http://b'', title = Some ''B'', content = None\<rparr>,
      \<lparr>Source.id = ''source-r-2'', url = ''http://a'', title = None, content = None\<rparr>]"
  using example_ids
  by (simp add: assign_source_ids_def example_sources_def enumerate_eq_zip upt_rec [of 0]
        upt_rec [of 1] upt_rec [of 2])

lemma example_extracted:
  "extract_claims_and_sources ''report'' example_extractor ''r'' world0 =
     (Some \<lparr>claims = [example_claim\<lparr>Claim.id := ''claim-r-0'',
                          source_ids := [''source-r-1'', ''source-r-2'', ''source-r-1'']\<rparr>],
            sources = assign_source_ids ''r'' example_sources\<rparr>,
      \<lparr>outside = (), calls = [Extract_call ''report''], heap = []\<rparr>)"
proof -
  have m: "url_to_source_id (assign_source_ids ''r'' example_sources) ''http://a'' = Some ''source-r-2''"
    "url_to_source_id (assign_source_ids ''r'' example_sources) ''http://b'' = Some ''source-r-1''"
    "url_to_source_id (assign_source_ids ''r'' example_sources) ''http://x'' = None"
    unfolding example_assigned by (simp_all add: url_to_source_id_def)
  have l: "link_claim (url_to_source_id (assign_source_ids ''r'' example_sources))
             (example_claim\<lparr>Claim.id := ''claim-r-0''\<rparr>)
           = example_claim\<lparr>Claim.id := ''claim-r-0'',
                          source_ids := [''source-r-1'', ''source-r-2'', ''source-r-1'']\<rparr>"
    by (simp add: link_claim_def m example_claim_def)
  show ?thesis
    using l
    by (simp add: extract_claims_and_sources_def invoke_def example_extractor_def world0_def
          assign_claim_ids_def link_claims_def claim_id_str_0)
qed

theorem claim_linking_witness:
  "map source_ids (link_claims example_sources [example_claim]) = [[''m1'', ''m2'', ''m1'']]
   \<and> set [''m1'', ''m2'', ''m1''] \<subseteq> Source.id ` set example_sources
   \<and> dom (url_to_source_id example_sources) = {''http://a'', ''http://b''}
   \<and> url_to_source_id example_sources ''http://a'' = Some ''m2''
   \<and> (\<exists>s \<in> set example_sources. url s = ''http://a'' \<and> Source.id s = ''m2'')
   \<and> (\<exists>rep w'. extract_claims_and_sources ''report'' example_extractor ''r'' world0 = (Some rep, w')
         \<and> map source_ids (claims rep) = [[''source-r-1'', ''source-r-2'', ''source-r-1'']]
         \<and> (\<forall>c \<in> set (claims rep). set (source_ids c) \<subseteq> Source.id ` set (sources rep)))"
proof -
  let ?rep = "\<lparr>claims = [example_claim\<lparr>Claim.id := ''claim-r-0'',
                          source_ids := [''source-r-1'', ''source-r-2'', ''source-r-1'']\<rparr>],
            sources = assign_source_ids ''r'' example_sources\<rparr>"
  let ?w = "\<lparr>outside = (), calls = [Extract_call ''report''], heap = []\<rparr>"
  have u: "source_urls example_claim = [''http://b'', ''http://x'', ''http://a'', ''http://b'']"
    by (simp add: example_claim_def)
  have s: "url ` set example_sources = {''http://a'', ''http://b''}"
    by (auto simp: example_sources_def)
  note t = claim_linking [of example_sources "[example_claim]" "''report''" example_extractor
                             "''r''" world0]
  from t
  have a: "map source_ids (link_claims example_sources [example_claim]) = [[''m1'', ''m2'', ''m1'']]"
    and b: "\<forall>c \<in> set (link_claims example_sources [example_claim]).
              set (source_ids c) \<subseteq> Source.id ` set example_sources"
    and c: "dom (url_to_source_id example_sources) = {''http://a'', ''http://b''}"
    by (simp_all add: u s example_map)
  from t
  have d: "\<forall>u i. url_to_source_id example_sources u = Some i \<longrightarrow>
             (\<exists>s \<in> set example_sources. url s = u \<and> Source.id s = i)"
    and e: "\<forall>rep w'. extract_claims_and_sources ''report'' example_extractor ''r'' world0
                        = (Some rep, w') \<longrightarrow>
         (\<forall>c \<in> set (claims rep). set (source_ids c) \<subseteq> Source.id ` set (sources rep))"
    by blast+
  from a obtain c0 where "link_claims example_sources [example_claim] = [c0]"
    and "source_ids c0 = [''m1'', ''m2'', ''m1'']"
    by (cases "link_claims example_sources [example_claim]") auto
  then have f: "set [''m1'', ''m2'', ''m1''] \<subseteq> Source.id ` set example_sources"
    using b by auto
  have g: "\<exists>s \<in> set example_sources. url s = ''http://a'' \<and> Source.id s = ''m2''"
    using d [rule_format, of "''http://a''" "''m2''"] example_map(1) by simp
  have "\<forall>c \<in> set (claims ?rep). set (source_ids c) \<subseteq> Source.id ` set (sources ?rep)"
    using e [rule_format, of ?rep ?w] example_extracted by simp
  then have h: "\<exists>rep w'. extract_claims_and_sources ''report'' example_extractor ''r'' world0
                   = (Some rep, w')
         \<and> map source_ids (claims rep) = [[''source-r-1'', ''source-r-2'', ''source-r-1'']]
         \<and> (\<forall>c \<in> set (claims rep). set (source_ids c) \<subseteq> Source.id ` set (sources rep))"
    using example_extracted by (intro exI [of _ ?rep] exI [of _ ?w]) simp
  show ?thesis using a f c example_map(1) g h by (intro conjI)
qed

text \<open>
  Claim C10. When several sources have the same URL, the dictionary keeps the ID of the
  last of them: a claim citing the URL gets the ID of the last source with that URL,
  and the ID of an earlier source with the same URL appears in no claim's
  \<open>source_ids\<close>.
\<close>

theorem duplicate_urls_last_wins:
  assumes "j < length raw"
    and "\<forall>k. j < k \<and> k < length raw \<longrightarrow> url (raw ! k) \<noteq> url (raw ! j)"
  shows "url_to_source_id (assign_source_ids rid raw) (url (raw ! j)) = Some (source_id_str rid j)
     \<and> (url (raw ! j) \<in> set (source_urls c) \<longrightarrow>
          source_id_str rid j
            \<in> set (source_ids (link_claim (url_to_source_id (assign_source_ids rid raw)) c)))
     \<and> (\<forall>i. i < j \<and> url (raw ! i) = url (raw ! j) \<longrightarrow>
          Source.id (assign_source_ids rid raw ! i) = source_id_str rid i
          \<and> source_id_str rid i
            \<notin> set (source_ids (link_claim (url_to_source_id (assign_source_ids rid raw)) c)))"
proof -
  let ?srcs = "assign_source_ids rid raw"
  let ?d = "url_to_source_id ?srcs"
  have len: "length ?srcs = length raw" by (rule length_assign_source_ids)
  have last: "\<forall>k. j < k \<and> k < length ?srcs \<longrightarrow> url (?srcs ! k) \<noteq> url (?srcs ! j)"
    using assms by (simp add: len url_assign_source_ids)
  have "?d (url (?srcs ! j)) = Some (Source.id (?srcs ! j))"
    using assms(1) last by (intro url_to_source_id_of_last) (simp_all add: len)
  then have m: "?d (url (raw ! j)) = Some (source_id_str rid j)"
    using assms(1) by (simp add: url_assign_source_ids id_assign_source_ids)
  have cited: "url (raw ! j) \<in> set (source_urls c) \<longrightarrow>
          source_id_str rid j \<in> set (source_ids (link_claim ?d c))"
    using m unfolding source_ids_link_claim set_map_filter by blast
  have earlier: "\<forall>i. i < j \<and> url (raw ! i) = url (raw ! j) \<longrightarrow>
          Source.id (?srcs ! i) = source_id_str rid i
          \<and> source_id_str rid i \<notin> set (source_ids (link_claim ?d c))"
  proof (intro allI impI)
    fix i assume i: "i < j \<and> url (raw ! i) = url (raw ! j)"
    then have ilen: "i < length raw" using assms(1) by simp
    have "source_id_str rid i \<notin> set (source_ids (link_claim ?d c))"
    proof
      assume "source_id_str rid i \<in> set (source_ids (link_claim ?d c))"
      then obtain u where "?d u = Some (source_id_str rid i)"
        unfolding source_ids_link_claim set_map_filter by blast
      then obtain k where k: "k < length ?srcs" "url (?srcs ! k) = u"
        "Source.id (?srcs ! k) = source_id_str rid i"
        "\<forall>k'. k < k' \<and> k' < length ?srcs \<longrightarrow> url (?srcs ! k') \<noteq> u"
        using url_to_source_id_is_last by blast
      have "source_id_str rid k = source_id_str rid i"
        using k(1,3) by (simp add: len id_assign_source_ids)
      then have "k = i" by (rule source_id_str_inj)
      then have "u = url (raw ! j)"
        using k(2) i ilen by (simp add: url_assign_source_ids)
      moreover have "url (?srcs ! j) \<noteq> u"
        using k(4) i \<open>k = i\<close> assms(1) by (simp add: len)
      ultimately show False using assms(1) by (simp add: url_assign_source_ids)
    qed
    then show "Source.id (?srcs ! i) = source_id_str rid i
          \<and> source_id_str rid i \<notin> set (source_ids (link_claim ?d c))"
      using ilen by (simp add: id_assign_source_ids)
  qed
  show ?thesis using m cited earlier by blast
qed

theorem duplicate_urls_last_wins_witness:
  "url (example_sources ! 0) = url (example_sources ! 2)
   \<and> url_to_source_id (assign_source_ids ''r'' example_sources) ''http://a'' = Some ''source-r-2''
   \<and> ''source-r-2'' \<in> set (source_ids (link_claim
          (url_to_source_id (assign_source_ids ''r'' example_sources)) example_claim))
   \<and> ''source-r-0'' \<notin> set (source_ids (link_claim
          (url_to_source_id (assign_source_ids ''r'' example_sources)) example_claim))"
proof -
  have n: "length example_sources = 3" by (simp add: example_sources_def)
  have u: "url (example_sources ! 0) = ''http://a''" "url (example_sources ! 2) = ''http://a''"
    by (simp_all add: example_sources_def)
  have last: "\<forall>k. 2 < k \<and> k < length example_sources \<longrightarrow>
                url (example_sources ! k) \<noteq> url (example_sources ! 2)"
    using n by auto
  have s: "source_id_str ''r'' 2 = ''source-r-2''" "source_id_str ''r'' 0 = ''source-r-0''"
    by code_simp+
  have c: "''http://a'' \<in> set (source_urls example_claim)"
    by (simp add: example_claim_def)
  let ?d = "url_to_source_id (assign_source_ids ''r'' example_sources)"
  from duplicate_urls_last_wins [of 2 example_sources "''r''" example_claim] last
  have a: "?d ''http://a'' = Some ''source-r-2''"
    and b: "''source-r-2'' \<in> set (source_ids (link_claim ?d example_claim))"
    and e: "\<forall>i. i < 2 \<and> url (example_sources ! i) = ''http://a'' \<longrightarrow>
              source_id_str ''r'' i \<notin> set (source_ids (link_claim ?d example_claim))"
    using c by (simp_all add: n u s)
  from e [rule_format, of 0]
  have "''source-r-0'' \<notin> set (source_ids (link_claim ?d example_claim))"
    by (simp add: u s)
  then show ?thesis using a b u by simp
qed

section \<open>Properties of the claim validator\<close>

lemma ustr_append: "ustr (a @ b) = ustr a @ ustr b"
  by (simp add: ustr_def)

lemma claim_sources_iff:
  "s \<in> set (claim_sources claim srcs) \<longleftrightarrow>
     s \<in> set srcs \<and> Source.id s \<in> set (source_ids claim)
     \<and> (\<exists>text. content s = Some text \<and> text \<noteq> [] \<and> \<not> prefix (ustr ''Error'') text)"
  by (auto simp: claim_sources_def is_evidence_def split: option.splits)

lemma prefix_Error_sentinel: "prefix (ustr ''Error'') (ustr (fetch_error_prefix u) @ rest)"
  by (simp add: fetch_error_prefix_def ustr_def)

lemma is_evidence_spec: "is_evidence claim s \<Longrightarrow> spec_is_evidence claim s"
proof -
  assume a: "is_evidence claim s"
  then obtain body where t: "content s = Some body" "body \<noteq> []" "\<not> prefix (ustr ''Error'') body"
    by (auto simp: is_evidence_def split: option.splits)
  have "\<not> prefix (ustr (fetch_error_prefix (url s))) body"
  proof
    assume "prefix (ustr (fetch_error_prefix (url s))) body"
    then obtain rest where "body = ustr (fetch_error_prefix (url s)) @ rest"
      by (auto simp: prefix_def)
    then show False using t(3) prefix_Error_sentinel by simp
  qed
  then show ?thesis using a t by (simp add: is_evidence_def spec_is_evidence_def)
qed

lemma validate_claim_no_evidence:
  "claim_sources claim srcs = [] \<Longrightarrow>
     validate_claim claim srcs validator_client w =
       (Some (length (heap w)), w\<lparr>heap := heap w @ [(False, no_evidence_result claim)]\<rparr>)"
  by (simp add: validate_claim_def new_result_def)

lemma sentinel_not_evidence:
  "content s = Some (ustr (fetch_error_prefix u) @ rest) \<Longrightarrow> \<not> is_evidence claim s"
  using prefix_Error_sentinel [of u rest] by (simp add: is_evidence_def)

text \<open>
  Claim C2, as the specification states it, fails: a source whose content starts with
  \<^verbatim>\<open>Error\<close> without being a fetch-error sentinel is evidence by the
  specification's words and is left out by the source.
\<close>

theorem evidence_selection_counterexample:
  "spec_is_evidence citing_claim error_page_source
   \<and> error_page_source \<notin> set (claim_sources citing_claim [error_page_source])"
  by (simp add: spec_is_evidence_def claim_sources_def is_evidence_def citing_claim_def
        error_page_source_def fetch_error_prefix_def ustr_def)

text \<open>
  Claim C2, amended. The evidence set holds exactly the sources of the list whose ID
  is among the claim's \<open>source_ids\<close> and whose content is present, non-empty and
  does not start with \<^verbatim>\<open>Error\<close>; every such source is evidence by the
  specification's words too, and no source whose content starts with a fetch-error
  sentinel is in it. When the evidence set is empty the validator returns a new result
  that is \<open>UNVERIFIABLE\<close> with confidence 0.0 and \<open>has_contradictions\<close> false, and
  but for this new object the world is as before: the judgment client has not been
  called.
\<close>

theorem evidence_selection:
  "(s \<in> set (claim_sources claim srcs) \<longleftrightarrow>
      s \<in> set srcs \<and> Source.id s \<in> set (source_ids claim)
      \<and> (\<exists>text. content s = Some text \<and> text \<noteq> [] \<and> \<not> prefix (ustr ''Error'') text))
   \<and> (s \<in> set (claim_sources claim srcs) \<longrightarrow> spec_is_evidence claim s)
   \<and> ((\<exists>u rest. content s = Some (ustr (fetch_error_prefix u) @ rest)) \<longrightarrow>
        s \<notin> set (claim_sources claim srcs))
   \<and> (claim_sources claim srcs = [] \<longrightarrow>
        (\<exists>r. validate_claim claim srcs validator_client w
                = (Some (length (heap w)), w\<lparr>heap := heap w @ [(False, r)]\<rparr>)
           \<and> status r = UNVERIFIABLE \<and> confidence r = 0
           \<and> \<not> ValidationResult.has_contradictions r))"
proof (intro conjI)
  show "s \<in> set (claim_sources claim srcs) \<longleftrightarrow>
      s \<in> set srcs \<and> Source.id s \<in> set (source_ids claim)
      \<and> (\<exists>text. content s = Some text \<and> text \<noteq> [] \<and> \<not> prefix (ustr ''Error'') text)"
    by (rule claim_sources_iff)
  show "s \<in> set (claim_sources claim srcs) \<longrightarrow> spec_is_evidence claim s"
    by (simp add: claim_sources_def is_evidence_spec)
  show "(\<exists>u rest. content s = Some (ustr (fetch_error_prefix u) @ rest)) \<longrightarrow>
        s \<notin> set (claim_sources claim srcs)"
    using sentinel_not_evidence [of s _ _ claim] by (auto simp: claim_sources_def)
  show "claim_sources claim srcs = [] \<longrightarrow>
        (\<exists>r. validate_claim claim srcs validator_client w
                = (Some (length (heap w)), w\<lparr>heap := heap w @ [(False, r)]\<rparr>)
           \<and> status r = UNVERIFIABLE \<and> confidence r = 0
           \<and> \<not> ValidationResult.has_contradictions r)"
  proof
    assume "claim_sources claim srcs = []"
    then have "validate_claim claim srcs validator_client w
                 = (Some (length (heap w)),
                    w\<lparr>heap := heap w @ [(False, no_evidence_result claim)]\<rparr>)
               \<and> status (no_evidence_result claim) = UNVERIFIABLE
               \<and> confidence (no_evidence_result claim) = 0
               \<and> \<not> ValidationResult.has_contradictions (no_evidence_result claim)"
      by (simp add: validate_claim_no_evidence no_evidence_result_def)
    then show "\<exists>r. validate_claim claim srcs validator_client w
                = (Some (length (heap w)), w\<lparr>heap := heap w @ [(False, r)]\<rparr>)
           \<and> status r = UNVERIFIABLE \<and> confidence r = 0
           \<and> \<not> ValidationResult.has_contradictions r"
      by (rule exI)
  qed
qed

theorem evidence_selection_witness:
  "good_source \<in> set (claim_sources citing_claim [failed_source, good_source])
   \<and> spec_is_evidence citing_claim good_source
   \<and> content failed_source = Some (ustr (fetch_error_prefix ''http://a'') @ ustr '': timeout'')
   \<and> failed_source \<notin> set (claim_sources citing_claim [failed_source, good_source])
   \<and> claim_sources citing_claim [failed_source] = []
   \<and> (\<exists>r. validate_claim citing_claim [failed_source] stub_judge world0
             = (Some 0, \<lparr>outside = (), calls = [], heap = [(False, r)]\<rparr>)
         \<and> status r = UNVERIFIABLE \<and> confidence r = 0
         \<and> \<not> ValidationResult.has_contradictions r)"
proof -
  have e: "claim_sources citing_claim [failed_source] = []"
    by (simp add: claim_sources_def is_evidence_def citing_claim_def failed_source_def ustr_def)
  have g: "good_source \<in> set [failed_source, good_source]
           \<and> Source.id good_source \<in> set (source_ids citing_claim)
           \<and> (\<exists>text. content good_source = Some text \<and> text \<noteq> []
                  \<and> \<not> prefix (ustr ''Error'') text)"
    by (simp add: good_source_def citing_claim_def ustr_def)
  have f: "content failed_source
             = Some (ustr (fetch_error_prefix ''http://a'') @ ustr '': timeout'')"
    by (simp add: failed_source_def fetch_error_prefix_def ustr_def)
  from evidence_selection [of good_source citing_claim "[failed_source, good_source]" stub_judge world0] g
  have 1: "good_source \<in> set (claim_sources citing_claim [failed_source, good_source])"
    and 2: "spec_is_evidence citing_claim good_source"
    by blast+
  from evidence_selection [of failed_source citing_claim "[failed_source, good_source]" stub_judge world0] f
  have 4: "failed_source \<notin> set (claim_sources citing_claim [failed_source, good_source])"
    by blast
  from evidence_selection [of good_source citing_claim "[failed_source]" stub_judge world0] e
  have 3: "\<exists>r. validate_claim citing_claim [failed_source] stub_judge world0
             = (Some 0, \<lparr>outside = (), calls = [], heap = [(False, r)]\<rparr>)
         \<and> status r = UNVERIFIABLE \<and> confidence r = 0
         \<and> \<not> ValidationResult.has_contradictions r"
    by (simp add: world0_def)
  show ?thesis using 1 2 f 4 e 3 by (intro conjI)
qed

subsection \<open>The heap of result objects\<close>

lemma apply_writes_Nil: "apply_writes [] h = h"
  by (simp add: apply_writes_def)

lemma apply_writes_Cons:
  "apply_writes ((a, v) # ws) h = apply_writes ws (if owned h a then h[a := (True, v)] else h)"
  by (simp add: apply_writes_def)

lemma apply_writes_length: "length (apply_writes ws h) = length h"
proof (induction ws arbitrary: h)
  case Nil
  show ?case by (simp add: apply_writes_Nil)
next
  case (Cons x ws)
  obtain a v where x: "x = (a, v)" by (cases x)
  show ?case unfolding x apply_writes_Cons by (simp add: Cons.IH)
qed

lemma apply_writes_keeps:
  "b < length h \<Longrightarrow> \<not> fst (h ! b) \<Longrightarrow> apply_writes ws h ! b = h ! b"
proof (induction ws arbitrary: h)
  case Nil
  show ?case by (simp add: apply_writes_Nil)
next
  case (Cons x ws)
  obtain a v where x: "x = (a, v)" by (cases x)
  let ?h = "if owned h a then h[a := (True, v)] else h"
  have ne: "owned h a \<Longrightarrow> a \<noteq> b" using Cons.prems by (auto simp: owned_def)
  have same: "?h ! b = h ! b" using ne by simp
  have "apply_writes ws ?h ! b = ?h ! b"
    using Cons.prems same by (intro Cons.IH) simp_all
  then show ?case unfolding x apply_writes_Cons using same by simp
qed

text \<open>
  One call of \<open>validate_claim\<close>: it returns the address of an object that carries
  the three fields of the claim; the heap does not shrink; an object that the client
  did not create is a fallback result; and the objects that the client did not create
  are left as they were.
\<close>

lemma validate_claim_step:
  "\<exists>a w1. validate_claim c srcs vc w = (Some a, w1)
      \<and> a < length (heap w1)
      \<and> length (heap w) \<le> length (heap w1)
      \<and> identifies (snd (heap w1 ! a)) c
      \<and> (\<not> fst (heap w1 ! a) \<longrightarrow> unverifiable_zero (snd (heap w1 ! a)))
      \<and> (\<forall>b < length (heap w). \<not> fst (heap w ! b) \<longrightarrow> heap w1 ! b = heap w ! b)"
proof (cases "claim_sources c srcs = []")
  case True
  then show ?thesis
    by (simp add: validate_claim_no_evidence no_evidence_result_def identifies_def
          unverifiable_zero_def nth_append)
next
  case False
  let ?req = "judge_request_of c (claim_sources c srcs)"
  obtain ws ret ow where cl: "vc ?req (outside w) (heap w) = ((ws, ret), ow)"
    by (metis surj_pair)
  let ?h = "apply_writes ws (heap w)"
  have len: "length ?h = length (heap w)" by (rule apply_writes_length)
  have keep: "\<forall>b < length (heap w). \<not> fst (heap w ! b) \<longrightarrow> ?h ! b = heap w ! b"
    by (simp add: apply_writes_keeps)
  show ?thesis
  proof (cases ret)
    case (Raises e)
    then show ?thesis
      using False cl len keep
      by (simp add: validate_claim_def invoke_judge_def Let_def new_result_def error_result_def
            identifies_def unverifiable_zero_def nth_append)
  next
    case (Returns_new obj)
    then show ?thesis
      using False cl len keep
      by (simp add: validate_claim_def invoke_judge_def Let_def set_identity_def
            identifies_def nth_append)
  next
    case (Returns_existing a)
    show ?thesis
    proof (cases "owned ?h a")
      case True
      then have a: "a < length ?h" "fst (?h ! a)" by (simp_all add: owned_def)
      have "\<forall>b < length (heap w). \<not> fst (heap w ! b) \<longrightarrow>
              ?h[a := (fst (?h ! a), set_identity c (snd (?h ! a)))] ! b = heap w ! b"
      proof (intro allI impI)
        fix b assume b: "b < length (heap w)" "\<not> fst (heap w ! b)"
        then have "?h ! b = heap w ! b" using keep by simp
        then have "a \<noteq> b" using a(2) b(2) by auto
        then show "?h[a := (fst (?h ! a), set_identity c (snd (?h ! a)))] ! b = heap w ! b"
          using \<open>?h ! b = heap w ! b\<close> by simp
      qed
      then show ?thesis
        using False cl len a True Returns_existing
        by (simp add: validate_claim_def invoke_judge_def Let_def set_identity_def
              identifies_def)
    next
      case no: False
      then show ?thesis
        using False cl len keep Returns_existing
        by (simp add: validate_claim_def invoke_judge_def Let_def new_result_def error_result_def
              identifies_def unverifiable_zero_def nth_append)
    qed
  qed
qed

lemma validate_claim_raises:
  assumes "vc (judge_request_of c (claim_sources c srcs)) (outside w) (heap w)
             = ((ws, Raises e), ow)"
  shows "\<exists>a w1. validate_claim c srcs vc w = (Some a, w1) \<and> a < length (heap w1)
           \<and> \<not> fst (heap w1 ! a)"
proof (cases "claim_sources c srcs = []")
  case True
  then show ?thesis by (simp add: validate_claim_no_evidence)
next
  case False
  then show ?thesis
    using assms
    by (simp add: validate_claim_def invoke_judge_def Let_def new_result_def apply_writes_length
          nth_append)
qed

lemma validate_loop_acc:
  "validate_loop validator_client srcs cs acc w =
     (acc @ fst (validate_loop validator_client srcs cs [] w),
      snd (validate_loop validator_client srcs cs [] w))"
proof (induction cs arbitrary: acc w)
  case Nil
  show ?case by simp
next
  case (Cons c cs)
  obtain r w1 where v: "validate_claim c srcs validator_client w = (Some r, w1)"
    using validate_claim_step [of c srcs validator_client w] by blast
  show ?case
    using v Cons.IH [of "acc @ [r]" w1] Cons.IH [of "[r]" w1] by simp
qed

lemma validate_all_claims_Nil:
  "validate_all_claims [] srcs validator_client w = ([], w)"
  by (simp add: validate_all_claims_def)

lemma validate_all_claims_Cons:
  "validate_all_claims (c # cs) srcs validator_client w =
     (case validate_claim c srcs validator_client w of
        (r, w1) \<Rightarrow>
          (case validate_all_claims cs srcs validator_client w1 of
             (rs, w2) \<Rightarrow> (the r # rs, w2)))"
proof -
  obtain r w1 where v: "validate_claim c srcs validator_client w = (Some r, w1)"
    using validate_claim_step [of c srcs validator_client w] by blast
  show ?thesis
    using v validate_loop_acc [of validator_client srcs cs "[r]" w1]
    by (simp add: validate_all_claims_def split: prod.splits)
qed

lemma validate_all_claims_length:
  "length (fst (validate_all_claims cs srcs vc w)) = length cs"
proof (induction cs arbitrary: w)
  case Nil
  show ?case by (simp add: validate_all_claims_Nil)
next
  case (Cons c cs)
  obtain a w1 where v: "validate_claim c srcs vc w = (Some a, w1)"
    using validate_claim_step [of c srcs vc w] by blast
  obtain refs w2 where rest: "validate_all_claims cs srcs vc w1 = (refs, w2)"
    by (cases "validate_all_claims cs srcs vc w1")
  show ?case
    using v rest Cons.IH [of w1] by (simp add: validate_all_claims_Cons)
qed

lemma validate_all_claims_keeps:
  "b < length (heap w) \<Longrightarrow> \<not> fst (heap w ! b) \<Longrightarrow>
     b < length (heap (snd (validate_all_claims cs srcs vc w)))
     \<and> heap (snd (validate_all_claims cs srcs vc w)) ! b = heap w ! b"
proof (induction cs arbitrary: w)
  case Nil
  then show ?case by (simp add: validate_all_claims_Nil)
next
  case (Cons c cs)
  obtain a w1 where v: "validate_claim c srcs vc w = (Some a, w1)"
    and l: "length (heap w) \<le> length (heap w1)"
    and k: "\<forall>b < length (heap w). \<not> fst (heap w ! b) \<longrightarrow> heap w1 ! b = heap w ! b"
    using validate_claim_step [of c srcs vc w] by blast
  obtain refs w2 where rest: "validate_all_claims cs srcs vc w1 = (refs, w2)"
    by (cases "validate_all_claims cs srcs vc w1")
  have b1: "b < length (heap w1)" "heap w1 ! b = heap w ! b"
    using Cons.prems l k by simp_all
  then have "\<not> fst (heap w1 ! b)" using Cons.prems by simp
  from Cons.IH [OF b1(1) this] have "b < length (heap w2) \<and> heap w2 ! b = heap w1 ! b"
    using rest by simp
  then show ?case
    using v rest b1 by (simp add: validate_all_claims_Cons)
qed

subsection \<open>A client that returns a new object from every call\<close>

lemma validate_claim_fresh:
  assumes "fresh_client vc"
  shows "\<exists>cell w1. validate_claim c srcs vc w = (Some (length (heap w)), w1)
           \<and> heap w1 = heap w @ [cell] \<and> identifies (snd cell) c"
proof (cases "claim_sources c srcs = []")
  case True
  then show ?thesis
    by (simp add: validate_claim_no_evidence no_evidence_result_def identifies_def)
next
  case False
  let ?req = "judge_request_of c (claim_sources c srcs)"
  obtain ws ret ow where cl: "vc ?req (outside w) (heap w) = ((ws, ret), ow)"
    by (metis surj_pair)
  from assms have "fst (fst (vc ?req (outside w) (heap w))) = []"
    and "\<forall>a. snd (fst (vc ?req (outside w) (heap w))) \<noteq> Returns_existing a"
    unfolding fresh_client_def by blast+
  then have ws: "ws = []" and ret: "\<forall>a. ret \<noteq> Returns_existing a" using cl by simp_all
  show ?thesis
  proof (cases ret)
    case (Raises e)
    then show ?thesis
      using False cl ws
      by (simp add: validate_claim_def invoke_judge_def Let_def new_result_def error_result_def
            identifies_def apply_writes_Nil)
  next
    case (Returns_new obj)
    then show ?thesis
      using False cl ws
      by (simp add: validate_claim_def invoke_judge_def Let_def set_identity_def
            identifies_def apply_writes_Nil)
  next
    case (Returns_existing a)
    then show ?thesis using ret by simp
  qed
qed

lemma validate_all_claims_fresh:
  assumes "fresh_client vc"
  shows "\<exists>refs w'. validate_all_claims cs srcs vc w = (refs, w')
           \<and> (\<forall>r \<in> set refs. length (heap w) \<le> r \<and> r < length (heap w'))
           \<and> distinct refs
           \<and> length (heap w) \<le> length (heap w')
           \<and> (\<forall>b < length (heap w). heap w' ! b = heap w ! b)
           \<and> list_all2 (\<lambda>r c. identifies (snd (heap w' ! r)) c) refs cs"
proof (induction cs arbitrary: w)
  case Nil
  show ?case by (simp add: validate_all_claims_Nil)
next
  case (Cons c cs)
  obtain cell w1 where v: "validate_claim c srcs vc w = (Some (length (heap w)), w1)"
    and h1: "heap w1 = heap w @ [cell]" and i: "identifies (snd cell) c"
    using validate_claim_fresh [OF assms, of c srcs w] by blast
  obtain refs w2 where rest: "validate_all_claims cs srcs vc w1 = (refs, w2)"
    and above: "\<forall>r \<in> set refs. length (heap w1) \<le> r \<and> r < length (heap w2)"
    and d: "distinct refs"
    and l: "length (heap w1) \<le> length (heap w2)"
    and k: "\<forall>b < length (heap w1). heap w2 ! b = heap w1 ! b"
    and f: "list_all2 (\<lambda>r c. identifies (snd (heap w2 ! r)) c) refs cs"
    using Cons.IH [of w1] by blast
  let ?a = "length (heap w)"
  have a1: "?a < length (heap w1)" by (simp add: h1)
  have a2: "heap w2 ! ?a = cell" using k a1 by (simp add: h1)
  have notin: "?a \<notin> set refs" using above a1 by auto
  have keep: "\<forall>b < length (heap w). heap w2 ! b = heap w ! b"
    using k by (simp add: h1 nth_append)
  have "validate_all_claims (c # cs) srcs vc w = (?a # refs, w2)"
    using v rest by (simp add: validate_all_claims_Cons)
  moreover have "\<forall>r \<in> set (?a # refs). length (heap w) \<le> r \<and> r < length (heap w2)"
    using above a1 l by (auto simp: h1)
  moreover have "distinct (?a # refs)" using d notin by simp
  moreover have "length (heap w) \<le> length (heap w2)" using l by (simp add: h1)
  moreover have "list_all2 (\<lambda>r c. identifies (snd (heap w2 ! r)) c) (?a # refs) (c # cs)"
    using f i a2 by simp
  ultimately show ?case using keep by blast
qed

lemma identifies_maps:
  assumes "list_all2 (\<lambda>r c. identifies (snd (heap w ! r)) c) refs cs"
  shows "map claim_id (objects w refs) = map Claim.id cs
         \<and> map ValidationResult.statement (objects w refs) = map Claim.statement cs
         \<and> map ValidationResult.verification_question (objects w refs)
             = map Claim.verification_question cs"
  using assms by (induction rule: list_all2_induct) (simp_all add: objects_def identifies_def)

subsection \<open>A client that always raises\<close>

lemma validate_all_claims_all_fail:
  assumes "always_raises vc"
  shows "\<exists>refs w'. validate_all_claims cs srcs vc w = (refs, w')
           \<and> list_all2 (\<lambda>r c. r < length (heap w') \<and> \<not> fst (heap w' ! r)
                               \<and> identifies (snd (heap w' ! r)) c
                               \<and> unverifiable_zero (snd (heap w' ! r))) refs cs"
proof (induction cs arbitrary: w)
  case Nil
  show ?case by (simp add: validate_all_claims_Nil)
next
  case (Cons c cs)
  let ?req = "judge_request_of c (claim_sources c srcs)"
  obtain ws ret ow where cl: "vc ?req (outside w) (heap w) = ((ws, ret), ow)"
    by (metis surj_pair)
  from assms obtain e where "snd (fst (vc ?req (outside w) (heap w))) = Raises e"
    unfolding always_raises_def by blast
  then have raises: "vc ?req (outside w) (heap w) = ((ws, Raises e), ow)" using cl by simp
  obtain a w1 where v: "validate_claim c srcs vc w = (Some a, w1)"
    and a: "a < length (heap w1)"
    and i: "identifies (snd (heap w1 ! a)) c"
    and u: "\<not> fst (heap w1 ! a) \<longrightarrow> unverifiable_zero (snd (heap w1 ! a))"
    using validate_claim_step [of c srcs vc w] by blast
  have own: "\<not> fst (heap w1 ! a)"
    using validate_claim_raises [of vc c srcs w ws e ow] raises v by simp
  obtain refs w2 where rest: "validate_all_claims cs srcs vc w1 = (refs, w2)"
    and f: "list_all2 (\<lambda>r c. r < length (heap w2) \<and> \<not> fst (heap w2 ! r)
                               \<and> identifies (snd (heap w2 ! r)) c
                               \<and> unverifiable_zero (snd (heap w2 ! r))) refs cs"
    using Cons.IH [of w1] by blast
  have "a < length (heap w2) \<and> heap w2 ! a = heap w1 ! a"
    using validate_all_claims_keeps [OF a own, of cs srcs vc] rest by simp
  then have "a < length (heap w2) \<and> \<not> fst (heap w2 ! a)
             \<and> identifies (snd (heap w2 ! a)) c \<and> unverifiable_zero (snd (heap w2 ! a))"
    using own i u by simp
  moreover have "validate_all_claims (c # cs) srcs vc w = (a # refs, w2)"
    using v rest by (simp add: validate_all_claims_Cons)
  ultimately show ?case using f by simp
qed

lemma unverifiable_all:
  assumes "list_all2 (\<lambda>r c. r < length (heap w) \<and> \<not> fst (heap w ! r)
                              \<and> identifies (snd (heap w ! r)) c
                              \<and> unverifiable_zero (snd (heap w ! r))) refs cs"
  shows "list_all unverifiable_zero (objects w refs)
         \<and> list_all2 (\<lambda>r c. identifies (snd (heap w ! r)) c) refs cs"
  using assms by (induction rule: list_all2_induct) (simp_all add: objects_def)

subsection \<open>Traceability of the results\<close>

lemma ev: "claim_sources citing_claim [good_source] = [good_source]"
    "claim_sources other_claim [good_source] = [good_source]"
  by (simp_all add: claim_sources_def is_evidence_def citing_claim_def other_claim_def
        good_source_def ustr_def)

lemma shared_run:
  "validate_all_claims [citing_claim, other_claim] [good_source] shared_judge world0 =
     ([0, 0],
      \<lparr>outside = (),
       calls = [Judge_call (judge_request_of citing_claim [good_source]),
                Judge_call (judge_request_of other_claim [good_source])],
       heap = [(True, set_identity other_claim (set_identity citing_claim stub_result))]\<rparr>)"
  by (simp add: validate_all_claims_def validate_claim_def ev invoke_judge_def shared_judge_def
        world0_def apply_writes_Nil owned_def Let_def)

text \<open>
  Claim C3, as the specification states it, fails: a judgment client that hands out
  one and the same result object for two claims makes both entries of the returned
  list that object, which carries the fields of the claim validated last. The first
  entry then has the \<open>claim_id\<close> of the second claim.
\<close>

theorem validate_all_claims_shared_object_counterexample:
  "map Claim.id [citing_claim, other_claim] = [''claim-r-0'', ''claim-r-1'']
   \<and> fst (validate_all_claims [citing_claim, other_claim] [good_source] shared_judge world0)
       = [0, 0]
   \<and> map claim_id
         (objects (snd (validate_all_claims [citing_claim, other_claim] [good_source]
                          shared_judge world0))
                  (fst (validate_all_claims [citing_claim, other_claim] [good_source]
                          shared_judge world0)))
       = [''claim-r-1'', ''claim-r-1'']"
proof -
  have ids: "map Claim.id [citing_claim, other_claim] = [''claim-r-0'', ''claim-r-1'']"
    by (simp add: citing_claim_def other_claim_def)
  have "claim_id (set_identity other_claim (set_identity citing_claim stub_result)) = ''claim-r-1''"
    by (simp add: set_identity_def other_claim_def)
  then show ?thesis
    unfolding shared_run using ids by (simp add: objects_def)
qed

text \<open>
  Claim C3, amended. Whatever the judgment client does, validating a list of claims
  returns one result per claim, in the order of the claims. When \<open>validate_claim\<close>
  returns the result of a claim, this object carries the \<open>claim_id\<close>, \<open>statement\<close>
  and \<open>verification_question\<close> of the claim. A claim whose call raises gets a result
  object that the validator creates itself; such an object is \<open>UNVERIFIABLE\<close> with
  confidence 0.0 and \<open>has_contradictions\<close> false, and it is the same when the batch
  ends, the remaining claims being validated after it from the world that call left.
  When the client returns a new object from every call that does not raise, the
  results are distinct objects and, when the batch ends, the result of every claim
  carries the three fields of its claim. When the client always raises, every result
  is \<open>UNVERIFIABLE\<close> with confidence 0.0 and carries the three fields of its claim.
\<close>

theorem validate_all_claims_traceable:
  "length (fst (validate_all_claims cs srcs vc w)) = length cs
   \<and> (\<exists>a w1 refs w2.
          validate_claim c srcs vc w = (Some a, w1)
          \<and> validate_all_claims cs srcs vc w1 = (refs, w2)
          \<and> validate_all_claims (c # cs) srcs vc w = (a # refs, w2)
          \<and> a < length (heap w1)
          \<and> identifies (snd (heap w1 ! a)) c
          \<and> ((\<exists>ws e ow. vc (judge_request_of c (claim_sources c srcs)) (outside w) (heap w)
                           = ((ws, Raises e), ow))
               \<longrightarrow> \<not> fst (heap w1 ! a))
          \<and> (\<not> fst (heap w1 ! a)
               \<longrightarrow> unverifiable_zero (snd (heap w1 ! a)) \<and> heap w2 ! a = heap w1 ! a))
   \<and> (fresh_client vc \<longrightarrow>
        (\<exists>refs w'. validate_all_claims cs srcs vc w = (refs, w')
           \<and> distinct refs
           \<and> map claim_id (objects w' refs) = map Claim.id cs
           \<and> map ValidationResult.statement (objects w' refs) = map Claim.statement cs
           \<and> map ValidationResult.verification_question (objects w' refs)
               = map Claim.verification_question cs))
   \<and> (always_raises vc \<longrightarrow>
        (\<exists>refs w'. validate_all_claims cs srcs vc w = (refs, w')
           \<and> list_all unverifiable_zero (objects w' refs)
           \<and> map claim_id (objects w' refs) = map Claim.id cs
           \<and> map ValidationResult.statement (objects w' refs) = map Claim.statement cs
           \<and> map ValidationResult.verification_question (objects w' refs)
               = map Claim.verification_question cs))"
proof (intro conjI)
  show "length (fst (validate_all_claims cs srcs vc w)) = length cs"
    by (rule validate_all_claims_length)
next
  obtain a w1 where v: "validate_claim c srcs vc w = (Some a, w1)"
    and a: "a < length (heap w1)"
    and i: "identifies (snd (heap w1 ! a)) c"
    and u: "\<not> fst (heap w1 ! a) \<longrightarrow> unverifiable_zero (snd (heap w1 ! a))"
    using validate_claim_step [of c srcs vc w] by blast
  obtain refs w2 where rest: "validate_all_claims cs srcs vc w1 = (refs, w2)"
    by (cases "validate_all_claims cs srcs vc w1")
  have whole: "validate_all_claims (c # cs) srcs vc w = (a # refs, w2)"
    using v rest by (simp add: validate_all_claims_Cons)
  have r: "(\<exists>ws e ow. vc (judge_request_of c (claim_sources c srcs)) (outside w) (heap w)
                           = ((ws, Raises e), ow))
               \<longrightarrow> \<not> fst (heap w1 ! a)"
  proof
    assume "\<exists>ws e ow. vc (judge_request_of c (claim_sources c srcs)) (outside w) (heap w)
                           = ((ws, Raises e), ow)"
    then obtain ws e ow where
      "vc (judge_request_of c (claim_sources c srcs)) (outside w) (heap w) = ((ws, Raises e), ow)"
      by blast
    from validate_claim_raises [of vc c srcs w ws e ow] this v
    show "\<not> fst (heap w1 ! a)" by simp
  qed
  have k: "\<not> fst (heap w1 ! a)
               \<longrightarrow> unverifiable_zero (snd (heap w1 ! a)) \<and> heap w2 ! a = heap w1 ! a"
  proof
    assume own: "\<not> fst (heap w1 ! a)"
    from validate_all_claims_keeps [OF a own, of cs srcs vc] rest
    have "heap w2 ! a = heap w1 ! a" by simp
    then show "unverifiable_zero (snd (heap w1 ! a)) \<and> heap w2 ! a = heap w1 ! a"
      using u own by simp
  qed
  show "\<exists>a w1 refs w2.
          validate_claim c srcs vc w = (Some a, w1)
          \<and> validate_all_claims cs srcs vc w1 = (refs, w2)
          \<and> validate_all_claims (c # cs) srcs vc w = (a # refs, w2)
          \<and> a < length (heap w1)
          \<and> identifies (snd (heap w1 ! a)) c
          \<and> ((\<exists>ws e ow. vc (judge_request_of c (claim_sources c srcs)) (outside w) (heap w)
                           = ((ws, Raises e), ow))
               \<longrightarrow> \<not> fst (heap w1 ! a))
          \<and> (\<not> fst (heap w1 ! a)
               \<longrightarrow> unverifiable_zero (snd (heap w1 ! a)) \<and> heap w2 ! a = heap w1 ! a)"
    using v rest whole a i r k by blast
next
  show "fresh_client vc \<longrightarrow>
        (\<exists>refs w'. validate_all_claims cs srcs vc w = (refs, w')
           \<and> distinct refs
           \<and> map claim_id (objects w' refs) = map Claim.id cs
           \<and> map ValidationResult.statement (objects w' refs) = map Claim.statement cs
           \<and> map ValidationResult.verification_question (objects w' refs)
               = map Claim.verification_question cs)"
  proof
    assume "fresh_client vc"
    from validate_all_claims_fresh [OF this, of cs srcs w]
    obtain refs w' where r: "validate_all_claims cs srcs vc w = (refs, w')"
      and d: "distinct refs"
      and f: "list_all2 (\<lambda>r c. identifies (snd (heap w' ! r)) c) refs cs"
      by blast
    show "\<exists>refs w'. validate_all_claims cs srcs vc w = (refs, w')
           \<and> distinct refs
           \<and> map claim_id (objects w' refs) = map Claim.id cs
           \<and> map ValidationResult.statement (objects w' refs) = map Claim.statement cs
           \<and> map ValidationResult.verification_question (objects w' refs)
               = map Claim.verification_question cs"
      using r d identifies_maps [OF f] by blast
  qed
next
  show "always_raises vc \<longrightarrow>
        (\<exists>refs w'. validate_all_claims cs srcs vc w = (refs, w')
           \<and> list_all unverifiable_zero (objects w' refs)
           \<and> map claim_id (objects w' refs) = map Claim.id cs
           \<and> map ValidationResult.statement (objects w' refs) = map Claim.statement cs
           \<and> map ValidationResult.verification_question (objects w' refs)
               = map Claim.verification_question cs)"
  proof
    assume "always_raises vc"
    from validate_all_claims_all_fail [OF this, of cs srcs w]
    obtain refs w' where r: "validate_all_claims cs srcs vc w = (refs, w')"
      and f: "list_all2 (\<lambda>r c. r < length (heap w') \<and> \<not> fst (heap w' ! r)
                               \<and> identifies (snd (heap w' ! r)) c
                               \<and> unverifiable_zero (snd (heap w' ! r))) refs cs"
      by blast
    from unverifiable_all [OF f]
    have u: "list_all unverifiable_zero (objects w' refs)"
      and i: "list_all2 (\<lambda>r c. identifies (snd (heap w' ! r)) c) refs cs"
      by simp_all
    show "\<exists>refs w'. validate_all_claims cs srcs vc w = (refs, w')
           \<and> list_all unverifiable_zero (objects w' refs)
           \<and> map claim_id (objects w' refs) = map Claim.id cs
           \<and> map ValidationResult.statement (objects w' refs) = map Claim.statement cs
           \<and> map ValidationResult.verification_question (objects w' refs)
               = map Claim.verification_question cs"
      using r u identifies_maps [OF i] by blast
  qed
qed

lemma flaky_first:
  "flaky_judge (judge_request_of citing_claim (claim_sources citing_claim [good_source]))
      (outside world0) (heap world0) = (([], Raises ''timeout''), ())"
  unfolding ev by (simp add: flaky_judge_def judge_request_of_def citing_claim_def world0_def)

lemma fresh_flaky: "fresh_client flaky_judge"
  by (simp add: fresh_client_def flaky_judge_def stub_judge_def)

lemma fresh_stub: "fresh_client stub_judge"
  by (simp add: fresh_client_def stub_judge_def)

lemma raises_failing: "always_raises failing_judge"
  by (simp add: always_raises_def failing_judge_def)

theorem validate_all_claims_traceable_witness:
  "length (fst (validate_all_claims [citing_claim, other_claim] [good_source] flaky_judge world0)) = 2
   \<and> flaky_judge (judge_request_of citing_claim (claim_sources citing_claim [good_source]))
        (outside world0) (heap world0) = (([], Raises ''timeout''), ())
   \<and> (\<exists>a refs w2.
         validate_all_claims [citing_claim, other_claim] [good_source] flaky_judge world0
           = (a # refs, w2)
         \<and> \<not> fst (heap w2 ! a) \<and> unverifiable_zero (snd (heap w2 ! a)))
   \<and> fresh_client flaky_judge
   \<and> (\<exists>refs w'.
         validate_all_claims [citing_claim, other_claim] [good_source] flaky_judge world0
           = (refs, w')
         \<and> distinct refs
         \<and> map claim_id (objects w' refs) = [''claim-r-0'', ''claim-r-1''])
   \<and> always_raises failing_judge
   \<and> (\<exists>refs w'.
         validate_all_claims [citing_claim, other_claim] [good_source] failing_judge world0
           = (refs, w')
         \<and> list_all unverifiable_zero (objects w' refs)
         \<and> map claim_id (objects w' refs) = [''claim-r-0'', ''claim-r-1''])"
proof -
  note t1 = validate_all_claims_traceable
              [of "[citing_claim, other_claim]" "[good_source]" flaky_judge world0 citing_claim]
  note t2 = validate_all_claims_traceable
              [of "[other_claim]" "[good_source]" flaky_judge world0 citing_claim]
  note t3 = validate_all_claims_traceable
              [of "[citing_claim, other_claim]" "[good_source]" failing_judge world0 citing_claim]
  have ids: "map Claim.id [citing_claim, other_claim] = [''claim-r-0'', ''claim-r-1'']"
    by (simp add: citing_claim_def other_claim_def)
  have a: "length (fst (validate_all_claims [citing_claim, other_claim] [good_source]
                          flaky_judge world0)) = 2"
    using t1 by simp
  from t2 [THEN conjunct2, THEN conjunct1] obtain a w1 refs w2 where
    x: "validate_claim citing_claim [good_source] flaky_judge world0 = (Some a, w1)
        \<and> validate_all_claims [other_claim] [good_source] flaky_judge w1 = (refs, w2)
        \<and> validate_all_claims [citing_claim, other_claim] [good_source] flaky_judge world0
            = (a # refs, w2)
        \<and> a < length (heap w1)
        \<and> identifies (snd (heap w1 ! a)) citing_claim
        \<and> ((\<exists>ws e ow. flaky_judge (judge_request_of citing_claim
                                       (claim_sources citing_claim [good_source]))
                          (outside world0) (heap world0) = ((ws, Raises e), ow))
             \<longrightarrow> \<not> fst (heap w1 ! a))
        \<and> (\<not> fst (heap w1 ! a)
             \<longrightarrow> unverifiable_zero (snd (heap w1 ! a)) \<and> heap w2 ! a = heap w1 ! a)"
    by (elim exE) (rule that)
  note whole = x [THEN conjunct2, THEN conjunct2, THEN conjunct1]
  note r = x [THEN conjunct2, THEN conjunct2, THEN conjunct2, THEN conjunct2, THEN conjunct2,
              THEN conjunct1]
  note k = x [THEN conjunct2, THEN conjunct2, THEN conjunct2, THEN conjunct2, THEN conjunct2,
              THEN conjunct2]
  have own: "\<not> fst (heap w1 ! a)" using r flaky_first by blast
  then have "\<not> fst (heap w2 ! a) \<and> unverifiable_zero (snd (heap w2 ! a))" using k by simp
  then have b: "\<exists>a refs w2.
         validate_all_claims [citing_claim, other_claim] [good_source] flaky_judge world0
           = (a # refs, w2)
         \<and> \<not> fst (heap w2 ! a) \<and> unverifiable_zero (snd (heap w2 ! a))"
    using whole by blast
  from t1 [THEN conjunct2, THEN conjunct2, THEN conjunct1, THEN mp, OF fresh_flaky]
  obtain refs1 v1 where
    y: "validate_all_claims [citing_claim, other_claim] [good_source] flaky_judge world0
          = (refs1, v1)
        \<and> distinct refs1
        \<and> map claim_id (objects v1 refs1) = map Claim.id [citing_claim, other_claim]
        \<and> map ValidationResult.statement (objects v1 refs1)
            = map Claim.statement [citing_claim, other_claim]
        \<and> map ValidationResult.verification_question (objects v1 refs1)
            = map Claim.verification_question [citing_claim, other_claim]"
    by (elim exE) (rule that)
  have c: "\<exists>refs w'.
         validate_all_claims [citing_claim, other_claim] [good_source] flaky_judge world0
           = (refs, w')
         \<and> distinct refs
         \<and> map claim_id (objects w' refs) = [''claim-r-0'', ''claim-r-1'']"
  proof (intro exI conjI)
    show "validate_all_claims [citing_claim, other_claim] [good_source] flaky_judge world0
            = (refs1, v1)"
      by (rule y [THEN conjunct1])
    show "distinct refs1" by (rule y [THEN conjunct2, THEN conjunct1])
    show "map claim_id (objects v1 refs1) = [''claim-r-0'', ''claim-r-1'']"
      using y [THEN conjunct2, THEN conjunct2, THEN conjunct1] unfolding ids .
  qed
  from t3 [THEN conjunct2, THEN conjunct2, THEN conjunct2, THEN mp, OF raises_failing]
  obtain refs2 v2 where
    z: "validate_all_claims [citing_claim, other_claim] [good_source] failing_judge world0
          = (refs2, v2)
        \<and> list_all unverifiable_zero (objects v2 refs2)
        \<and> map claim_id (objects v2 refs2) = map Claim.id [citing_claim, other_claim]
        \<and> map ValidationResult.statement (objects v2 refs2)
            = map Claim.statement [citing_claim, other_claim]
        \<and> map ValidationResult.verification_question (objects v2 refs2)
            = map Claim.verification_question [citing_claim, other_claim]"
    by (elim exE) (rule that)
  have d: "\<exists>refs w'.
         validate_all_claims [citing_claim, other_claim] [good_source] failing_judge world0
           = (refs, w')
         \<and> list_all unverifiable_zero (objects w' refs)
         \<and> map claim_id (objects w' refs) = [''claim-r-0'', ''claim-r-1'']"
  proof (intro exI conjI)
    show "validate_all_claims [citing_claim, other_claim] [good_source] failing_judge world0
            = (refs2, v2)"
      by (rule z [THEN conjunct1])
    show "list_all unverifiable_zero (objects v2 refs2)"
      by (rule z [THEN conjunct2, THEN conjunct1])
    show "map claim_id (objects v2 refs2) = [''claim-r-0'', ''claim-r-1'']"
      using z [THEN conjunct2, THEN conjunct2, THEN conjunct1] unfolding ids .
  qed
  show ?thesis using a flaky_first b fresh_flaky c raises_failing d by (intro conjI)
qed

section \<open>Properties of the report generator\<close>

lemma counts_dict_upd:
  "(counts_dict a b c d)(''SUPPORTED'' \<mapsto> x) = counts_dict x b c d"
  "(counts_dict a b c d)(''PARTIALLY_SUPPORTED'' \<mapsto> x) = counts_dict a x c d"
  "(counts_dict a b c d)(''CONTRADICTED'' \<mapsto> x) = counts_dict a b x d"
  "(counts_dict a b c d)(''UNVERIFIABLE'' \<mapsto> x) = counts_dict a b c x"
  by (rule ext, simp add: counts_dict_def)+

lemma counts_dict_lookup:
  "counts_dict a b c d ''SUPPORTED'' = Some a"
  "counts_dict a b c d ''PARTIALLY_SUPPORTED'' = Some b"
  "counts_dict a b c d ''CONTRADICTED'' = Some c"
  "counts_dict a b c d ''UNVERIFIABLE'' = Some d"
  by (simp_all add: counts_dict_def)

lemma tally_counts_dict:
  "tally (counts_dict a b c d) rs =
     Inr (counts_dict (a + count_status SUPPORTED rs) (b + count_status PARTIALLY_SUPPORTED rs)
            (c + count_status CONTRADICTED rs) (d + count_status UNVERIFIABLE rs))"
proof (induction rs arbitrary: a b c d)
  case Nil
  show ?case by (simp add: count_status_def)
next
  case (Cons r rs)
  show ?case
    by (cases "status r")
       (simp_all add: counts_dict_lookup counts_dict_upd Cons.IH count_status_def add.assoc)
qed

lemma count_status_total:
  "count_status SUPPORTED rs + count_status PARTIALLY_SUPPORTED rs
     + count_status CONTRADICTED rs + count_status UNVERIFIABLE rs = int (length rs)"
proof (induction rs)
  case Nil
  show ?case by (simp add: count_status_def)
next
  case (Cons r rs)
  then show ?case by (cases "status r") (simp_all add: count_status_def)
qed

lemma has_contradictions_any:
  "list_ex ValidationResult.has_contradictions rs
     \<longleftrightarrow> (\<exists>r \<in> set rs. ValidationResult.has_contradictions r)"
  by (simp add: list_ex_iff)

lemma score_never_raises: "\<exists>s. calculate_trust_score rs = Inr s"
proof (cases "rs = []")
  case True
  then show ?thesis by (simp add: calculate_trust_score_def)
next
  case False
  then show ?thesis by (simp add: score_unfold)
qed

lemma generate_trust_report_value:
  "\<exists>score. calculate_trust_score rs = Inr score
     \<and> generate_trust_report rs new_id now =
         Inr \<lparr>TrustReport.id = new_id, timestamp = now, trust_score = score,
              claim_count = int (length rs),
              results = counts_dict (count_status SUPPORTED rs)
                          (count_status PARTIALLY_SUPPORTED rs)
                          (count_status CONTRADICTED rs) (count_status UNVERIFIABLE rs),
              has_contradictions = list_ex ValidationResult.has_contradictions rs\<rparr>"
proof -
  obtain score where s: "calculate_trust_score rs = Inr score"
    using score_never_raises by blast
  have i: "initial_status_counts = counts_dict 0 0 0 0"
    by (simp add: initial_status_counts_def counts_dict_def)
  show ?thesis
    using s by (simp add: generate_trust_report_def i tally_counts_dict)
qed

lemma dom_counts_dict:
  "dom (counts_dict a b c d)
     = {''SUPPORTED'', ''PARTIALLY_SUPPORTED'', ''CONTRADICTED'', ''UNVERIFIABLE''}"
  by (auto simp: counts_dict_def split: if_splits)

text \<open>
  Claim C5. The report generator never raises, and in its report the \<open>results\<close>
  dictionary has exactly the four status keys, each holding the number of results with
  that status (so 0 when there is none); these four numbers add up to \<open>claim_count\<close>,
  which is the number of results; and \<open>has_contradictions\<close> holds exactly when some
  result has \<open>has_contradictions\<close>.
\<close>

theorem generate_trust_report_counts:
  "\<exists>report. generate_trust_report rs new_id now = Inr report
     \<and> dom (results report)
         = {''SUPPORTED'', ''PARTIALLY_SUPPORTED'', ''CONTRADICTED'', ''UNVERIFIABLE''}
     \<and> results report ''SUPPORTED'' = Some (count_status SUPPORTED rs)
     \<and> results report ''PARTIALLY_SUPPORTED'' = Some (count_status PARTIALLY_SUPPORTED rs)
     \<and> results report ''CONTRADICTED'' = Some (count_status CONTRADICTED rs)
     \<and> results report ''UNVERIFIABLE'' = Some (count_status UNVERIFIABLE rs)
     \<and> count_status SUPPORTED rs + count_status PARTIALLY_SUPPORTED rs
         + count_status CONTRADICTED rs + count_status UNVERIFIABLE rs = claim_count report
     \<and> claim_count report = int (length rs)
     \<and> (TrustReport.has_contradictions report
          \<longleftrightarrow> (\<exists>r \<in> set rs. ValidationResult.has_contradictions r))
     \<and> calculate_trust_score rs = Inr (trust_score report)"
proof -
  obtain score where s: "calculate_trust_score rs = Inr score"
    and g: "generate_trust_report rs new_id now =
         Inr \<lparr>TrustReport.id = new_id, timestamp = now, trust_score = score,
              claim_count = int (length rs),
              results = counts_dict (count_status SUPPORTED rs)
                          (count_status PARTIALLY_SUPPORTED rs)
                          (count_status CONTRADICTED rs) (count_status UNVERIFIABLE rs),
              has_contradictions = list_ex ValidationResult.has_contradictions rs\<rparr>"
    using generate_trust_report_value by blast
  show ?thesis
    unfolding g using s
    by (simp add: dom_counts_dict counts_dict_lookup count_status_total has_contradictions_any)
qed

theorem generate_trust_report_counts_witness:
  "\<exists>report. generate_trust_report [mk_result SUPPORTED 1 False, mk_result UNVERIFIABLE 0 True,
                                     mk_result SUPPORTED 1 False] ''ab12cd34'' ''2025-01-01T00:00:00''
               = Inr report
     \<and> results report ''SUPPORTED'' = Some 2
     \<and> results report ''PARTIALLY_SUPPORTED'' = Some 0
     \<and> results report ''CONTRADICTED'' = Some 0
     \<and> results report ''UNVERIFIABLE'' = Some 1
     \<and> claim_count report = 3
     \<and> TrustReport.has_contradictions report"
proof -
  let ?rs = "[mk_result SUPPORTED 1 False, mk_result UNVERIFIABLE 0 True,
              mk_result SUPPORTED 1 False]"
  have c: "count_status SUPPORTED ?rs = 2" "count_status PARTIALLY_SUPPORTED ?rs = 0"
    "count_status CONTRADICTED ?rs = 0" "count_status UNVERIFIABLE ?rs = 1"
    by (simp_all add: count_status_def mk_result_def)
  have h: "\<exists>r \<in> set ?rs. ValidationResult.has_contradictions r"
    by (simp add: mk_result_def)
  from generate_trust_report_counts [of ?rs "''ab12cd34''" "''2025-01-01T00:00:00''"]
  obtain report where
    "generate_trust_report ?rs ''ab12cd34'' ''2025-01-01T00:00:00'' = Inr report"
    "results report ''SUPPORTED'' = Some 2"
    "results report ''PARTIALLY_SUPPORTED'' = Some 0"
    "results report ''CONTRADICTED'' = Some 0"
    "results report ''UNVERIFIABLE'' = Some 1"
    "claim_count report = 3"
    "TrustReport.has_contradictions report"
    unfolding c using h by auto
  then show ?thesis by blast
qed

section \<open>Properties of source retrieval\<close>

lemma isspace_newline: "isspace 0x0A"
  by (simp add: isspace_def)

lemma re_sub_ws3_not_space_first: "not_space_first s \<Longrightarrow> not_space_first (re_sub_ws3 s)"
  by (cases s) (simp_all add: not_space_first_def)

lemma not_space_first_dropWhile: "not_space_first (dropWhile isspace s)"
  by (induction s) (simp_all add: not_space_first_def)

lemma no_ws3_Cons_nonspace: "\<not> isspace c \<Longrightarrow> no_ws3 (c # s) = no_ws3 s"
  by (cases s rule: no_ws3.cases) auto

lemma no_ws3_short_run:
  assumes "no_ws3 s" and "not_space_first s" and "length r \<le> 2"
  shows "no_ws3 (r @ s)"
proof -
  have one: "\<And>a. no_ws3 (a # s)"
    using assms(1,2) by (cases s rule: no_ws3.cases) (auto simp: not_space_first_def)
  have two: "\<And>a b. no_ws3 (a # b # s)"
    using assms(2) one by (cases s) (auto simp: not_space_first_def)
  show ?thesis
  proof (cases r)
    case Nil
    then show ?thesis using assms(1) by simp
  next
    case (Cons a r1)
    show ?thesis
    proof (cases r1)
      case Nil
      then show ?thesis using Cons one by simp
    next
      case (Cons b r2)
      then have "r2 = []" using assms(3) \<open>r = a # r1\<close> by simp
      then show ?thesis using Cons \<open>r = a # r1\<close> two by simp
    qed
  qed
qed

lemma re_sub_ws3_no_ws3: "no_ws3 (re_sub_ws3 s)"
proof (induction s rule: re_sub_ws3.induct)
  case 1
  show ?case by simp
next
  case (2 c cs)
  show ?case
  proof (cases "isspace c")
    case True
    let ?run = "takeWhile isspace (c # cs)"
    let ?r = "if 3 \<le> length ?run then [0x0A, 0x0A] else ?run"
    have "length ?r \<le> 2" by auto
    moreover have "no_ws3 (re_sub_ws3 (dropWhile isspace cs))"
      using 2 True by simp
    moreover have "not_space_first (re_sub_ws3 (dropWhile isspace cs))"
      by (intro re_sub_ws3_not_space_first not_space_first_dropWhile)
    ultimately have "no_ws3 (?r @ re_sub_ws3 (dropWhile isspace cs))"
      by (intro no_ws3_short_run)
    moreover have "re_sub_ws3 (c # cs) = ?r @ re_sub_ws3 (dropWhile isspace cs)"
      using True by (simp add: Let_def)
    ultimately show ?thesis by (simp only:)
  next
    case False
    then show ?thesis using 2 by (simp add: no_ws3_Cons_nonspace)
  qed
qed

lemma filter_nonspace_takeWhile: "filter (\<lambda>c. \<not> isspace c) (takeWhile isspace s) = []"
  by (induction s) simp_all

lemma filter_nonspace_dropWhile:
  "filter (\<lambda>c. \<not> isspace c) (dropWhile isspace s) = filter (\<lambda>c. \<not> isspace c) s"
  by (induction s) simp_all

lemma re_sub_ws3_keeps_text:
  "filter (\<lambda>c. \<not> isspace c) (re_sub_ws3 s) = filter (\<lambda>c. \<not> isspace c) s"
proof (induction s rule: re_sub_ws3.induct)
  case 1
  show ?case by simp
next
  case (2 c cs)
  show ?case
  proof (cases "isspace c")
    case True
    then show ?thesis
      using 2 filter_nonspace_takeWhile [of cs]
      by (simp add: Let_def isspace_newline filter_nonspace_dropWhile)
  next
    case False
    then show ?thesis using 2 by simp
  qed
qed

lemma strip_keeps_text:
  "filter (\<lambda>c. \<not> isspace c) (strip s) = filter (\<lambda>c. \<not> isspace c) s"
proof -
  have "filter (\<lambda>c. \<not> isspace c) (rev (dropWhile isspace (rev t))) = filter (\<lambda>c. \<not> isspace c) t"
    for t
    by (metis filter_nonspace_dropWhile rev_filter rev_rev_ident)
  then show ?thesis by (simp add: strip_def filter_nonspace_dropWhile)
qed

lemma strip_trimmed:
  "strip s = [] \<or> (\<not> isspace (hd (strip s)) \<and> \<not> isspace (last (strip s)))"
proof (cases "strip s = []")
  case True
  then show ?thesis by simp
next
  case False
  let ?t = "dropWhile isspace s"
  let ?u = "dropWhile isspace (rev ?t)"
  have u: "?u \<noteq> []" using False by (simp add: strip_def)
  then have "\<not> isspace (hd ?u)" by (rule hd_dropWhile)
  then have l: "\<not> isspace (last (strip s))" using u by (simp add: strip_def last_rev)
  have t: "?t \<noteq> []" using u by (metis dropWhile.simps(1) rev.simps(1))
  then have ht: "\<not> isspace (hd ?t)" by (rule hd_dropWhile)
  obtain n where "?u = drop n (rev ?t)"
    by (metis dropWhile_eq_drop)
  then have "rev ?u = take (length ?t - n) ?t" by (simp add: rev_drop)
  moreover have "rev ?u \<noteq> []" using u by simp
  ultimately have "hd (rev ?u) = hd ?t" by (metis hd_take take_eq_Nil2 not_gr_zero)
  then have "\<not> isspace (hd (strip s))" using ht by (simp add: strip_def)
  then show ?thesis using l by simp
qed

lemma no_ws3_tl: "no_ws3 (x # s) \<Longrightarrow> no_ws3 s"
  by (cases s rule: no_ws3.cases) auto

lemma no_ws3_append_left: "no_ws3 (xs @ ys) \<Longrightarrow> no_ws3 xs"
  by (induction xs rule: no_ws3.induct) auto

lemma no_ws3_append_right: "no_ws3 (xs @ ys) \<Longrightarrow> no_ws3 ys"
  by (induction xs) (auto dest: no_ws3_tl)

lemma no_ws3_strip: "no_ws3 s \<Longrightarrow> no_ws3 (strip s)"
proof -
  assume a: "no_ws3 s"
  let ?t = "dropWhile isspace s"
  have "no_ws3 (takeWhile isspace s @ ?t)" using a by simp
  then have t: "no_ws3 ?t" by (rule no_ws3_append_right)
  have "rev (takeWhile isspace (rev ?t) @ dropWhile isspace (rev ?t)) = ?t"
    by simp
  then have "rev (dropWhile isspace (rev ?t)) @ rev (takeWhile isspace (rev ?t)) = ?t"
    by (simp only: rev_append)
  then have "no_ws3 (rev (dropWhile isspace (rev ?t)) @ rev (takeWhile isspace (rev ?t)))"
    using t by (simp only:)
  then show ?thesis unfolding strip_def by (rule no_ws3_append_left)
qed

lemma strip_empty_iff: "strip (re_sub_ws3 s) = [] \<longleftrightarrow> (\<forall>c \<in> set s. isspace c)"
proof
  assume "strip (re_sub_ws3 s) = []"
  then have "filter (\<lambda>c. \<not> isspace c) s = []"
    using strip_keeps_text [of "re_sub_ws3 s"] re_sub_ws3_keeps_text [of s] by simp
  then show "\<forall>c \<in> set s. isspace c" by (simp add: filter_empty_conv)
next
  assume a: "\<forall>c \<in> set s. isspace c"
  let ?t = "strip (re_sub_ws3 s)"
  have f: "filter (\<lambda>c. \<not> isspace c) ?t = []"
    using a by (simp add: strip_keeps_text re_sub_ws3_keeps_text filter_empty_conv)
  show "?t = []"
  proof (rule ccontr)
    assume ne: "?t \<noteq> []"
    then have "\<not> isspace (hd ?t)" using strip_trimmed [of "re_sub_ws3 s"] by simp
    moreover have "hd ?t \<in> set ?t" using ne by simp
    ultimately show False using f by (simp add: filter_empty_conv)
  qed
qed

lemma fetch_loop_acc:
  "fetch_loop app srcs acc w =
     (acc @ fst (fetch_loop app srcs [] w), snd (fetch_loop app srcs [] w))"
proof (induction srcs arbitrary: acc w)
  case Nil
  show ?case by simp
next
  case (Cons s srcs)
  obtain outcome w1 where i: "invoke app Scrape_call (url s) w = (outcome, w1)"
    by (cases "invoke app Scrape_call (url s) w")
  let ?f = "s\<lparr>content := Some (fetched_content (url s) outcome)\<rparr>"
  show ?case
    using i Cons.IH [of "acc @ [?f]" w1] Cons.IH [of "[?f]" w1] by simp
qed

lemma fetch_sources_Nil: "fetch_sources [] (Some app) w = ([], w)"
  by (simp add: fetch_sources_def)

lemma fetch_sources_Cons:
  "fetch_sources (s # rest) (Some app) w =
     (case invoke app Scrape_call (url s) w of
        (outcome, w1) \<Rightarrow>
          (case fetch_sources rest (Some app) w1 of
             (fetched, w2) \<Rightarrow>
               (s\<lparr>content := Some (fetched_content (url s) outcome)\<rparr> # fetched, w2)))"
proof -
  obtain outcome w1 where i: "invoke app Scrape_call (url s) w = (outcome, w1)"
    by (cases "invoke app Scrape_call (url s) w")
  show ?thesis
    using i fetch_loop_acc [of app rest "[s\<lparr>content := Some (fetched_content (url s) outcome)\<rparr>]" w1]
    by (simp add: fetch_sources_def split: prod.splits)
qed

lemma calls_invoke: "calls (snd (invoke client tag req w)) = calls w @ [tag req]"
  by (simp add: invoke_def split: prod.splits)

lemma scrape_outcomes_length: "length (scrape_outcomes app srcs w) = length srcs"
  by (induction srcs arbitrary: w) (simp_all split: prod.splits)

lemma fetch_sources_all:
  "\<exists>fetched w'. fetch_sources srcs (Some app) w = (fetched, w')
     \<and> length fetched = length srcs
     \<and> calls w' = calls w @ map (\<lambda>s. Scrape_call (url s)) srcs
     \<and> fetched = map2 (\<lambda>s outcome. s\<lparr>content := Some (fetched_content (url s) outcome)\<rparr>)
                    srcs (scrape_outcomes app srcs w)"
proof (induction srcs arbitrary: w)
  case Nil
  show ?case by (simp add: fetch_sources_Nil)
next
  case (Cons s srcs)
  obtain outcome w1 where i: "invoke app Scrape_call (url s) w = (outcome, w1)"
    by (cases "invoke app Scrape_call (url s) w")
  then have c1: "calls w1 = calls w @ [Scrape_call (url s)]"
    using calls_invoke [of app Scrape_call "url s" w] by simp
  obtain fetched w2 where r: "fetch_sources srcs (Some app) w1 = (fetched, w2)"
    and l: "length fetched = length srcs"
    and c2: "calls w2 = calls w1 @ map (\<lambda>s. Scrape_call (url s)) srcs"
    and a: "fetched = map2 (\<lambda>s outcome. s\<lparr>content := Some (fetched_content (url s) outcome)\<rparr>)
                        srcs (scrape_outcomes app srcs w1)"
    using Cons.IH [of w1] by blast
  have whole: "fetch_sources (s # srcs) (Some app) w =
          (s\<lparr>content := Some (fetched_content (url s) outcome)\<rparr> # fetched, w2)"
    using i r by (simp add: fetch_sources_Cons)
  have o: "scrape_outcomes app (s # srcs) w = outcome # scrape_outcomes app srcs w1"
    using i by simp
  have m: "s\<lparr>content := Some (fetched_content (url s) outcome)\<rparr> # fetched
      = map2 (\<lambda>s outcome. s\<lparr>content := Some (fetched_content (url s) outcome)\<rparr>)
          (s # srcs) (scrape_outcomes app (s # srcs) w)"
    unfolding o using a by simp
  show ?case
  proof (intro exI conjI)
    show "fetch_sources (s # srcs) (Some app) w =
          (s\<lparr>content := Some (fetched_content (url s) outcome)\<rparr> # fetched, w2)"
      by (rule whole)
    show "length (s\<lparr>content := Some (fetched_content (url s) outcome)\<rparr> # fetched)
            = length (s # srcs)"
      using l by simp
    show "calls w2 = calls w @ map (\<lambda>s. Scrape_call (url s)) (s # srcs)"
      using c1 c2 by simp
    show "s\<lparr>content := Some (fetched_content (url s) outcome)\<rparr> # fetched
      = map2 (\<lambda>s outcome. s\<lparr>content := Some (fetched_content (url s) outcome)\<rparr>)
          (s # srcs) (scrape_outcomes app (s # srcs) w)"
      by (rule m)
  qed
qed

lemma fetched_has_content:
  "\<forall>f \<in> set (map2 (\<lambda>s outcome. s\<lparr>content := Some (fetched_content (url s) outcome)\<rparr>)
                  srcs outcomes). content f \<noteq> None"
  by (auto simp: set_zip)

lemma re_sub_ws3_run:
  assumes "r \<noteq> []" and "\<forall>c \<in> set r. isspace c" and "not_space_first rest"
  shows "re_sub_ws3 (r @ rest)
           = (if 3 \<le> length r then [0x0A, 0x0A] else r) @ re_sub_ws3 rest"
proof -
  obtain c cs where r: "r = c # cs" using assms(1) by (cases r) auto
  have sp: "isspace c" "\<forall>x \<in> set cs. isspace x" using assms(2) r by auto
  have d: "dropWhile isspace rest = rest" "takeWhile isspace rest = []"
    using assms(3) by (cases rest; simp add: not_space_first_def)+
  have t: "takeWhile isspace (cs @ rest) = cs"
    using sp(2) d(2) by (simp add: takeWhile_append2)
  have "dropWhile isspace (cs @ rest) = rest"
    using sp(2) d(1) by (simp add: dropWhile_append2)
  then show ?thesis
    using sp(1) t r by (simp add: Let_def)
qed

lemma blank_fetch:
  "fetch_sources example_sources (Some blank_firecrawl) world0 =
     ([\<lparr>Source.id = ''m0'', url = ''http://a'', title = None, content = Some []\<rparr>,
       \<lparr>Source.id = ''m1'', url = ''http://b'', title = Some ''B'', content = Some []\<rparr>,
       \<lparr>Source.id = ''m2'', url = ''http://a'', title = None, content = Some []\<rparr>],
      \<lparr>outside = (),
       calls = [Scrape_call ''http://a'', Scrape_call ''http://b'', Scrape_call ''http://a''],
       heap = []\<rparr>)"
  by (simp add: fetch_sources_def example_sources_def invoke_def blank_firecrawl_def
        world0_def strip_def isspace_def)

lemma falsy_sentinel:
  "fetched_content ''http://a'' (Inr Falsy)
     = ustr ''Error fetching content from http://a. Firecrawl returned empty or invalid data.''"
  by (simp add: fetch_error_prefix_def)

text \<open>
  Claim C7, as stated, fails in three ways. When no scraping client is given, line 109
  returns the list as it came, so the contents stay \<^verbatim>\<open>None\<close> and nothing is
  fetched. When a response has a markdown text without any usable text in it (empty,
  or whitespace only), line 124 takes the branch of success and the content is the
  empty string, not a sentinel. And the sentinel written for a response that is empty
  or has no markdown text (line 130) continues the URL with a full stop and a fixed
  sentence, not with a colon and a detail.
\<close>

theorem fetch_sources_unfetched_counterexample:
  "example_sources \<noteq> []
   \<and> content (hd (fst (fetch_sources example_sources None world0))) = None
   \<and> calls (snd (fetch_sources example_sources None world0)) = []
   \<and> map content (fst (fetch_sources example_sources (Some blank_firecrawl) world0))
       = [Some [], Some [], Some []]
   \<and> \<not> prefix (ustr ''Error fetching content from http://a'') []
   \<and> fetched_content ''http://a'' (Inr Falsy)
       = ustr ''Error fetching content from http://a. Firecrawl returned empty or invalid data.''
   \<and> fetched_content ''http://a'' (Inr Falsy) \<noteq> ustr ''Error fetching content from http://a''
   \<and> \<not> prefix (ustr ''Error fetching content from http://a: '')
          (fetched_content ''http://a'' (Inr Falsy))"
proof -
  have a: "example_sources \<noteq> []
           \<and> content (hd (fst (fetch_sources example_sources None world0))) = None
           \<and> calls (snd (fetch_sources example_sources None world0)) = []"
    by (simp add: fetch_sources_def example_sources_def world0_def)
  have b: "map content (fst (fetch_sources example_sources (Some blank_firecrawl) world0))
             = [Some [], Some [], Some []]"
    by (simp add: blank_fetch)
  have c: "\<not> prefix (ustr ''Error fetching content from http://a'') []"
    by (simp add: ustr_def)
  have d: "ustr ''Error fetching content from http://a. Firecrawl returned empty or invalid data.''
             \<noteq> ustr ''Error fetching content from http://a''"
    by (simp add: ustr_def)
  have e: "\<not> prefix (ustr ''Error fetching content from http://a: '')
             (ustr ''Error fetching content from http://a. Firecrawl returned empty or invalid data.'')"
    by (simp add: ustr_def)
  show ?thesis
    unfolding falsy_sentinel using a b c d e by (intro conjI) simp_all
qed

text \<open>
  Claim C7, amended. With a scraping client, retrieval calls \<^verbatim>\<open>scrape_url\<close> once for
  every source, in the order of the list, whatever the earlier calls did, and returns
  the sources in that order, each with a content that is not \<^verbatim>\<open>None\<close> and
  everything else unchanged; the content of a source is determined by the outcome of
  its own call alone. When the response has a markdown text, the content is this text,
  cleaned and trimmed, which is the empty string exactly when the text has no character
  other than whitespace. When the response is empty or has no markdown text, the
  content is \<^verbatim>\<open>Error fetching content from {url}. Firecrawl returned empty or invalid data.\<close>
  When the call raises, the content is \<^verbatim>\<open>Error fetching content from {url}: {detail}\<close>.
  Cleaning replaces every maximal run of three or more whitespace characters by two
  newlines and keeps everything else, so the cleaned and trimmed text has no three
  whitespace characters in a row, has the same other characters in the same order, and
  neither starts nor ends with whitespace. Without a scraping client the list is
  returned unchanged.
\<close>

theorem fetch_sources_each_source:
  "(\<exists>fetched w'. fetch_sources srcs (Some app) w = (fetched, w')
      \<and> length fetched = length srcs
      \<and> calls w' = calls w @ map (\<lambda>s. Scrape_call (url s)) srcs
      \<and> fetched = map2 (\<lambda>s outcome. s\<lparr>content := Some (fetched_content (url s) outcome)\<rparr>)
                     srcs (scrape_outcomes app srcs w)
      \<and> length (scrape_outcomes app srcs w) = length srcs
      \<and> (\<forall>f \<in> set fetched. content f \<noteq> None))
   \<and> (\<exists>outcome w1 fetched w2.
         invoke app Scrape_call (url s) w = (outcome, w1)
         \<and> fetch_sources rest (Some app) w1 = (fetched, w2)
         \<and> scrape_outcomes app (s # rest) w = outcome # scrape_outcomes app rest w1
         \<and> fetch_sources (s # rest) (Some app) w
             = (s\<lparr>content := Some (fetched_content (url s) outcome)\<rparr> # fetched, w2))
   \<and> fetched_content u (Inr (With_markdown markdown)) = strip (re_sub_ws3 markdown)
   \<and> fetched_content u (Inr Falsy)
       = ustr (''Error fetching content from '' @ u
                 @ ''. Firecrawl returned empty or invalid data.'')
   \<and> fetched_content u (Inr Without_markdown)
       = ustr (''Error fetching content from '' @ u
                 @ ''. Firecrawl returned empty or invalid data.'')
   \<and> fetched_content u (Inl e) = ustr (''Error fetching content from '' @ u @ '': '' @ e)
   \<and> (strip (re_sub_ws3 markdown) = [] \<longleftrightarrow> (\<forall>c \<in> set markdown. isspace c))
   \<and> (r \<noteq> [] \<and> (\<forall>c \<in> set r. isspace c) \<and> not_space_first t \<longrightarrow>
        re_sub_ws3 (r @ t) = (if 3 \<le> length r then [0x0A, 0x0A] else r) @ re_sub_ws3 t)
   \<and> (\<not> isspace x \<longrightarrow> re_sub_ws3 (x # t) = x # re_sub_ws3 t)
   \<and> no_ws3 (strip (re_sub_ws3 markdown))
   \<and> filter (\<lambda>c. \<not> isspace c) (strip (re_sub_ws3 markdown)) = filter (\<lambda>c. \<not> isspace c) markdown
   \<and> (strip (re_sub_ws3 markdown) = []
        \<or> (\<not> isspace (hd (strip (re_sub_ws3 markdown)))
            \<and> \<not> isspace (last (strip (re_sub_ws3 markdown)))))
   \<and> fetch_sources srcs None w = (srcs, w)"
proof -
  have all: "\<exists>fetched w'. fetch_sources srcs (Some app) w = (fetched, w')
      \<and> length fetched = length srcs
      \<and> calls w' = calls w @ map (\<lambda>s. Scrape_call (url s)) srcs
      \<and> fetched = map2 (\<lambda>s outcome. s\<lparr>content := Some (fetched_content (url s) outcome)\<rparr>)
                     srcs (scrape_outcomes app srcs w)
      \<and> length (scrape_outcomes app srcs w) = length srcs
      \<and> (\<forall>f \<in> set fetched. content f \<noteq> None)"
  proof -
    obtain fetched w' where f: "fetch_sources srcs (Some app) w = (fetched, w')"
      and l: "length fetched = length srcs"
      and c: "calls w' = calls w @ map (\<lambda>s. Scrape_call (url s)) srcs"
      and m: "fetched = map2 (\<lambda>s outcome. s\<lparr>content := Some (fetched_content (url s) outcome)\<rparr>)
                     srcs (scrape_outcomes app srcs w)"
      using fetch_sources_all [of srcs app w] by blast
    have h: "\<forall>f \<in> set fetched. content f \<noteq> None"
      unfolding m by (rule fetched_has_content)
    show ?thesis
      using f l c m h scrape_outcomes_length [of app srcs w] by blast
  qed
  obtain outcome1 w1 where i: "invoke app Scrape_call (url s) w = (outcome1, w1)"
    by (cases "invoke app Scrape_call (url s) w")
  obtain fetched w2 where f: "fetch_sources rest (Some app) w1 = (fetched, w2)"
    by (cases "fetch_sources rest (Some app) w1")
  have step: "\<exists>outcome w1 fetched w2.
         invoke app Scrape_call (url s) w = (outcome, w1)
         \<and> fetch_sources rest (Some app) w1 = (fetched, w2)
         \<and> scrape_outcomes app (s # rest) w = outcome # scrape_outcomes app rest w1
         \<and> fetch_sources (s # rest) (Some app) w
             = (s\<lparr>content := Some (fetched_content (url s) outcome)\<rparr> # fetched, w2)"
    using i f by (simp add: fetch_sources_Cons)
  have run: "r \<noteq> [] \<and> (\<forall>c \<in> set r. isspace c) \<and> not_space_first t \<longrightarrow>
        re_sub_ws3 (r @ t) = (if 3 \<le> length r then [0x0A, 0x0A] else r) @ re_sub_ws3 t"
    using re_sub_ws3_run [of r t] by blast
  have keep: "\<not> isspace x \<longrightarrow> re_sub_ws3 (x # t) = x # re_sub_ws3 t"
    by simp
  have clean: "no_ws3 (strip (re_sub_ws3 markdown))"
    by (intro no_ws3_strip re_sub_ws3_no_ws3)
  have kept: "filter (\<lambda>c. \<not> isspace c) (strip (re_sub_ws3 markdown))
                = filter (\<lambda>c. \<not> isspace c) markdown"
    by (simp add: strip_keeps_text re_sub_ws3_keeps_text)
  have none: "fetch_sources srcs None w = (srcs, w)"
    by (simp add: fetch_sources_def)
  have md: "fetched_content u (Inr (With_markdown markdown)) = strip (re_sub_ws3 markdown)"
    and fa: "fetched_content u (Inr Falsy)
       = ustr (''Error fetching content from '' @ u
                 @ ''. Firecrawl returned empty or invalid data.'')"
    and wm: "fetched_content u (Inr Without_markdown)
       = ustr (''Error fetching content from '' @ u
                 @ ''. Firecrawl returned empty or invalid data.'')"
    and er: "fetched_content u (Inl e) = ustr (''Error fetching content from '' @ u @ '': '' @ e)"
    by (simp_all add: fetch_error_prefix_def)
  show ?thesis
    using all step md fa wm er strip_empty_iff [of markdown] run keep clean kept
      strip_trimmed [of "re_sub_ws3 markdown"] none
    by (intro conjI)
qed

lemma example_fetch:
  "fst (fetch_sources example_sources (Some example_firecrawl) world0) =
     [\<lparr>Source.id = ''m0'', url = ''http://a'', title = None,
       content = Some (ustr ''The'' @ [0x0A, 0x0A] @ ustr ''sky is  blue.'')\<rparr>,
      \<lparr>Source.id = ''m1'', url = ''http://b'', title = Some ''B'',
       content = Some (ustr ''Error fetching content from http://b: timeout'')\<rparr>,
      \<lparr>Source.id = ''m2'', url = ''http://a'', title = None,
       content = Some (ustr ''The'' @ [0x0A, 0x0A] @ ustr ''sky is  blue.'')\<rparr>]"
  by (simp add: fetch_sources_def example_sources_def invoke_def example_firecrawl_def
        world0_def strip_def isspace_def fetch_error_prefix_def ustr_def)

theorem fetch_sources_each_source_witness:
  "(\<exists>fetched w'. fetch_sources example_sources (Some example_firecrawl) world0 = (fetched, w')
      \<and> length fetched = 3
      \<and> calls w' = [Scrape_call ''http://a'', Scrape_call ''http://b'', Scrape_call ''http://a'']
      \<and> (\<forall>f \<in> set fetched. content f \<noteq> None)
      \<and> map content fetched =
          [Some (ustr ''The'' @ [0x0A, 0x0A] @ ustr ''sky is  blue.''),
           Some (ustr ''Error fetching content from http://b: timeout''),
           Some (ustr ''The'' @ [0x0A, 0x0A] @ ustr ''sky is  blue.'')])
   \<and> re_sub_ws3 ([0x2003, 0x3000, 0x2028] @ ustr ''sky'') = [0x0A, 0x0A] @ re_sub_ws3 (ustr ''sky'')
   \<and> re_sub_ws3 (ustr ''  '' @ ustr ''sky'') = ustr ''  '' @ re_sub_ws3 (ustr ''sky'')
   \<and> re_sub_ws3 (of_char (CHR ''s'') # ustr ''ky'') = of_char (CHR ''s'') # re_sub_ws3 (ustr ''ky'')
   \<and> strip (re_sub_ws3 [0x20, 0x3000, 0x0A]) = []
   \<and> strip (re_sub_ws3 (ustr '' a '')) \<noteq> []
   \<and> \<not> isspace (hd (strip (re_sub_ws3 (ustr '' a ''))))"
proof -
  have n: "length example_sources = 3"
    and u: "map (\<lambda>s. Scrape_call (url s)) example_sources
             = [Scrape_call ''http://a'', Scrape_call ''http://b'', Scrape_call ''http://a'']"
    by (simp_all add: example_sources_def)
  have c0: "calls world0 = []" by (simp add: world0_def)
  from fetch_sources_each_source [of example_sources example_firecrawl world0, THEN conjunct1]
  obtain fetched w' where
    x: "fetch_sources example_sources (Some example_firecrawl) world0 = (fetched, w')
        \<and> length fetched = length example_sources
        \<and> calls w' = calls world0 @ map (\<lambda>s. Scrape_call (url s)) example_sources
        \<and> fetched = map2 (\<lambda>s outcome. s\<lparr>content := Some (fetched_content (url s) outcome)\<rparr>)
                     example_sources (scrape_outcomes example_firecrawl example_sources world0)
        \<and> length (scrape_outcomes example_firecrawl example_sources world0)
            = length example_sources
        \<and> (\<forall>f \<in> set fetched. content f \<noteq> None)"
    by (elim exE) (rule that)
  note f = x [THEN conjunct1]
  have l: "length fetched = 3"
    using x [THEN conjunct2, THEN conjunct1] unfolding n .
  have c: "calls w' = [Scrape_call ''http://a'', Scrape_call ''http://b'', Scrape_call ''http://a'']"
    using x [THEN conjunct2, THEN conjunct2, THEN conjunct1] unfolding u c0 by simp
  note h = x [THEN conjunct2, THEN conjunct2, THEN conjunct2, THEN conjunct2, THEN conjunct2]
  have m: "map content fetched =
          [Some (ustr ''The'' @ [0x0A, 0x0A] @ ustr ''sky is  blue.''),
           Some (ustr ''Error fetching content from http://b: timeout''),
           Some (ustr ''The'' @ [0x0A, 0x0A] @ ustr ''sky is  blue.'')]"
    using example_fetch f by simp
  have first: "\<exists>fetched w'. fetch_sources example_sources (Some example_firecrawl) world0 = (fetched, w')
      \<and> length fetched = 3
      \<and> calls w' = [Scrape_call ''http://a'', Scrape_call ''http://b'', Scrape_call ''http://a'']
      \<and> (\<forall>f \<in> set fetched. content f \<noteq> None)
      \<and> map content fetched =
          [Some (ustr ''The'' @ [0x0A, 0x0A] @ ustr ''sky is  blue.''),
           Some (ustr ''Error fetching content from http://b: timeout''),
           Some (ustr ''The'' @ [0x0A, 0x0A] @ ustr ''sky is  blue.'')]"
  proof (intro exI conjI)
    show "fetch_sources example_sources (Some example_firecrawl) world0 = (fetched, w')"
      by (rule f)
    show "length fetched = 3" by (rule l)
    show "calls w' = [Scrape_call ''http://a'', Scrape_call ''http://b'', Scrape_call ''http://a'']"
      by (rule c)
    show "\<forall>f \<in> set fetched. content f \<noteq> None" by (rule h)
    show "map content fetched =
          [Some (ustr ''The'' @ [0x0A, 0x0A] @ ustr ''sky is  blue.''),
           Some (ustr ''Error fetching content from http://b: timeout''),
           Some (ustr ''The'' @ [0x0A, 0x0A] @ ustr ''sky is  blue.'')]"
      by (rule m)
  qed
  have p3: "[0x2003, 0x3000, 0x2028] \<noteq> [] \<and> (\<forall>c \<in> set [0x2003, 0x3000, 0x2028]. isspace c)
            \<and> not_space_first (ustr ''sky'')"
    and p2: "ustr ''  '' \<noteq> [] \<and> (\<forall>c \<in> set (ustr ''  ''). isspace c)
             \<and> not_space_first (ustr ''sky'')"
    and ns: "\<not> isspace (of_char (CHR ''s''))"
    and ws: "\<forall>c \<in> set [0x20, 0x3000, 0x0A]. isspace c"
    and nw: "\<not> (\<forall>c \<in> set (ustr '' a ''). isspace c)"
    by (simp_all add: isspace_def not_space_first_def ustr_def)
  have l3: "3 \<le> length [0x2003, 0x3000, 0x2028 :: nat]"
    and l2: "\<not> 3 \<le> length (ustr ''  '')" by (simp_all add: ustr_def)
  from fetch_sources_each_source [where r = "[0x2003, 0x3000, 0x2028]" and t = "ustr ''sky''",
         THEN conjunct2, THEN conjunct2, THEN conjunct2, THEN conjunct2, THEN conjunct2,
         THEN conjunct2, THEN conjunct2, THEN conjunct1, THEN mp, OF p3]
  have long: "re_sub_ws3 ([0x2003, 0x3000, 0x2028] @ ustr ''sky'')
                = [0x0A, 0x0A] @ re_sub_ws3 (ustr ''sky'')"
    unfolding if_P [OF l3] .
  from fetch_sources_each_source [where r = "ustr ''  ''" and t = "ustr ''sky''",
         THEN conjunct2, THEN conjunct2, THEN conjunct2, THEN conjunct2, THEN conjunct2,
         THEN conjunct2, THEN conjunct2, THEN conjunct1, THEN mp, OF p2]
  have short: "re_sub_ws3 (ustr ''  '' @ ustr ''sky'') = ustr ''  '' @ re_sub_ws3 (ustr ''sky'')"
    unfolding if_not_P [OF l2] .
  from fetch_sources_each_source [where x = "of_char (CHR ''s'')" and t = "ustr ''ky''",
         THEN conjunct2, THEN conjunct2, THEN conjunct2, THEN conjunct2, THEN conjunct2,
         THEN conjunct2, THEN conjunct2, THEN conjunct2, THEN conjunct1, THEN mp, OF ns]
  have keep: "re_sub_ws3 (of_char (CHR ''s'') # ustr ''ky'')
                = of_char (CHR ''s'') # re_sub_ws3 (ustr ''ky'')" .
  from fetch_sources_each_source [where markdown = "[0x20, 0x3000, 0x0A]",
         THEN conjunct2, THEN conjunct2, THEN conjunct2, THEN conjunct2, THEN conjunct2,
         THEN conjunct2, THEN conjunct1, THEN iffD2, OF ws]
  have blank: "strip (re_sub_ws3 [0x20, 0x3000, 0x0A]) = []" .
  note t = fetch_sources_each_source [where markdown = "ustr '' a ''"]
  have ne: "strip (re_sub_ws3 (ustr '' a '')) \<noteq> []"
    using t [THEN conjunct2, THEN conjunct2, THEN conjunct2, THEN conjunct2, THEN conjunct2,
             THEN conjunct2, THEN conjunct1] nw by blast
  have hd: "\<not> isspace (hd (strip (re_sub_ws3 (ustr '' a ''))))"
    using t [THEN conjunct2, THEN conjunct2, THEN conjunct2, THEN conjunct2, THEN conjunct2,
             THEN conjunct2, THEN conjunct2, THEN conjunct2, THEN conjunct2, THEN conjunct2,
             THEN conjunct2, THEN conjunct1] ne by blast
  show ?thesis using first long short keep blank ne hd by (intro conjI)
qed

section \<open>Properties of the pipeline\<close>

lemma extract_None_iff:
  "fst (extract_claims_and_sources report_text ec rid w) = None
     \<longleftrightarrow> (\<exists>e ow. ec report_text (outside w) = (Inl e, ow))"
proof -
  obtain r ow where c: "ec report_text (outside w) = (r, ow)"
    by (cases "ec report_text (outside w)")
  show ?thesis
    using c by (cases r) (simp_all add: extract_claims_and_sources_def invoke_def Let_def)
qed

lemma generate_trust_report_never_raises:
  "\<exists>report. generate_trust_report rs new_id now = Inr report"
  using generate_trust_report_value [of rs new_id now] by blast

lemma validate_report_None:
  assumes "extract_claims_and_sources report_text ec rid w = (None, w1)"
  shows "validate_report report_text ec vc fa rid nid now w = (Inr None, w1)"
  using assms by (simp add: validate_report_def)

lemma validate_report_no_claims:
  assumes "extract_claims_and_sources report_text ec rid w = (Some ex, w1)"
    and "claims ex = []"
  shows "validate_report report_text ec vc fa rid nid now w = (Inr None, w1)"
  using assms by (simp add: validate_report_def)

lemma validate_report_triple:
  assumes "extract_claims_and_sources report_text ec rid w = (Some ex, w1)"
    and "claims ex \<noteq> []"
  shows "\<exists>srcs w2 rs w3 report.
           retrieve ex fa w1 = (srcs, w2)
           \<and> validate_all_claims (claims ex) srcs vc w2 = (rs, w3)
           \<and> rs \<noteq> []
           \<and> length (objects w3 rs) = length (claims ex)
           \<and> generate_trust_report (objects w3 rs) nid now = Inr report
           \<and> validate_report report_text ec vc fa rid nid now w
               = (Inr (Some (report, objects w3 rs, ex\<lparr>sources := srcs\<rparr>)), w3)"
proof -
  obtain srcs w2 where r: "retrieve ex fa w1 = (srcs, w2)"
    by (cases "retrieve ex fa w1")
  obtain rs w3 where v: "validate_all_claims (claims ex) srcs vc w2 = (rs, w3)"
    by (cases "validate_all_claims (claims ex) srcs vc w2")
  have len: "length rs = length (claims ex)"
    using validate_all_claims_length [of "claims ex" srcs vc w2] v by simp
  then have ne: "rs \<noteq> []" using assms(2) by auto
  have lo: "length (objects w3 rs) = length (claims ex)"
    using len by (simp add: objects_def)
  obtain report where g: "generate_trust_report (objects w3 rs) nid now = Inr report"
    using generate_trust_report_never_raises by blast
  have "validate_report report_text ec vc fa rid nid now w
               = (Inr (Some (report, objects w3 rs, ex\<lparr>sources := srcs\<rparr>)), w3)"
    using assms r v ne g by (simp add: validate_report_def)
  then show ?thesis using r v ne lo g by blast
qed

text \<open>
  Claim C6. The pipeline returns \<^verbatim>\<open>None\<close> exactly when extraction fails (the
  extraction client raises), when extraction yields no claim, or when the validation
  pass yields no result; in every other case, that is whenever at least one claim was
  extracted, it returns the triple of the trust report, the validation results and the
  extracted report, and no exception leaves it; the validation results are the result
  objects of the validation pass, one per claim, as they are at that moment. Retrieval is skipped, the world left
  as it is, when the extracted source list is empty, and is \<open>fetch_sources\<close> otherwise.
\<close>

theorem validate_report_outcomes:
  assumes "extract_claims_and_sources report_text ec rid w = (extracted, w1)"
  shows "(extracted = None \<longleftrightarrow> (\<exists>e ow. ec report_text (outside w) = (Inl e, ow)))
   \<and> (fst (validate_report report_text ec vc fa rid nid now w) = Inr None \<longleftrightarrow>
        extracted = None
        \<or> (\<exists>ex. extracted = Some ex
              \<and> (claims ex = []
                  \<or> fst (validate_all_claims (claims ex) (fst (retrieve ex fa w1)) vc
                            (snd (retrieve ex fa w1))) = [])))
   \<and> (\<forall>ex. extracted = Some ex \<and> claims ex \<noteq> [] \<longrightarrow>
        (\<exists>srcs w2 rs w3 report.
           retrieve ex fa w1 = (srcs, w2)
           \<and> validate_all_claims (claims ex) srcs vc w2 = (rs, w3)
           \<and> rs \<noteq> []
           \<and> length (objects w3 rs) = length (claims ex)
           \<and> generate_trust_report (objects w3 rs) nid now = Inr report
           \<and> validate_report report_text ec vc fa rid nid now w
               = (Inr (Some (report, objects w3 rs, ex\<lparr>sources := srcs\<rparr>)), w3)))
   \<and> (\<forall>ex. extracted = Some ex \<and> sources ex = [] \<longrightarrow> retrieve ex fa w1 = ([], w1))
   \<and> (\<forall>ex. extracted = Some ex \<and> sources ex \<noteq> [] \<longrightarrow>
        retrieve ex fa w1 = fetch_sources (sources ex) fa w1)"
proof -
  have fails: "extracted = None \<longleftrightarrow> (\<exists>e ow. ec report_text (outside w) = (Inl e, ow))"
    using extract_None_iff [of report_text ec rid w] assms by simp
  have triple: "\<forall>ex. extracted = Some ex \<and> claims ex \<noteq> [] \<longrightarrow>
        (\<exists>srcs w2 rs w3 report.
           retrieve ex fa w1 = (srcs, w2)
           \<and> validate_all_claims (claims ex) srcs vc w2 = (rs, w3)
           \<and> rs \<noteq> []
           \<and> length (objects w3 rs) = length (claims ex)
           \<and> generate_trust_report (objects w3 rs) nid now = Inr report
           \<and> validate_report report_text ec vc fa rid nid now w
               = (Inr (Some (report, objects w3 rs, ex\<lparr>sources := srcs\<rparr>)), w3))"
    using validate_report_triple [of report_text ec rid w _ w1 fa vc nid now] assms by blast
  have null: "fst (validate_report report_text ec vc fa rid nid now w) = Inr None \<longleftrightarrow>
        extracted = None
        \<or> (\<exists>ex. extracted = Some ex
              \<and> (claims ex = []
                  \<or> fst (validate_all_claims (claims ex) (fst (retrieve ex fa w1)) vc
                            (snd (retrieve ex fa w1))) = []))"
  proof (cases extracted)
    case None
    then show ?thesis
      using validate_report_None [of report_text ec rid w w1 vc fa nid now] assms by simp
  next
    case (Some ex)
    show ?thesis
    proof (cases "claims ex = []")
      case True
      then show ?thesis
        using Some validate_report_no_claims [of report_text ec rid w ex w1 vc fa nid now] assms
        by simp
    next
      case False
      then obtain srcs w2 rs w3 report where
        "retrieve ex fa w1 = (srcs, w2)"
        "validate_all_claims (claims ex) srcs vc w2 = (rs, w3)"
        "rs \<noteq> []"
        "validate_report report_text ec vc fa rid nid now w
               = (Inr (Some (report, objects w3 rs, ex\<lparr>sources := srcs\<rparr>)), w3)"
        using triple Some by blast
      then show ?thesis using Some False by simp
    qed
  qed
  have skip: "\<forall>ex. extracted = Some ex \<and> sources ex = [] \<longrightarrow> retrieve ex fa w1 = ([], w1)"
    by (simp add: retrieve_def)
  have fetch: "\<forall>ex. extracted = Some ex \<and> sources ex \<noteq> [] \<longrightarrow>
        retrieve ex fa w1 = fetch_sources (sources ex) fa w1"
    by (simp add: retrieve_def)
  show ?thesis using fails null triple skip fetch by blast
qed


lemma no_sources_extracted:
  "extract_claims_and_sources ''report'' no_sources_extractor ''r'' world0 =
     (Some \<lparr>claims = [example_claim\<lparr>Claim.id := ''claim-r-0'', source_ids := []\<rparr>],
            sources = []\<rparr>,
      \<lparr>outside = (), calls = [Extract_call ''report''], heap = []\<rparr>)"
  by (simp add: extract_claims_and_sources_def invoke_def no_sources_extractor_def world0_def
        assign_source_ids_def assign_claim_ids_def link_claims_def link_claim_def
        url_to_source_id_def claim_id_str_0 example_claim_def)

lemma failing_extracted:
  "extract_claims_and_sources ''report'' failing_extractor ''r'' world0 =
     (None, \<lparr>outside = (), calls = [Extract_call ''report''], heap = []\<rparr>)"
  by (simp add: extract_claims_and_sources_def invoke_def failing_extractor_def world0_def)

lemma example_sources_assigned_nonempty: "assign_source_ids ''r'' example_sources \<noteq> []"
  by (simp add: example_assigned)

theorem validate_report_outcomes_witness:
  "failing_extractor ''report'' (outside world0) = (Inl ''malformed response'', ())
   \<and> fst (validate_report ''report'' failing_extractor stub_judge (Some example_firecrawl)
          ''r'' ''t'' ''now'' world0) = Inr None
   \<and> (\<exists>report rs w3.
         validate_report ''report'' no_sources_extractor stub_judge (Some example_firecrawl)
           ''r'' ''t'' ''now'' world0
           = (Inr (Some (report, rs,
                \<lparr>claims = [example_claim\<lparr>Claim.id := ''claim-r-0'', source_ids := []\<rparr>],
                 sources = []\<rparr>)), w3)
         \<and> length rs = 1)
   \<and> retrieve \<lparr>claims = [example_claim\<lparr>Claim.id := ''claim-r-0'', source_ids := []\<rparr>],
               sources = []\<rparr>
        (Some example_firecrawl) \<lparr>outside = (), calls = [Extract_call ''report''], heap = []\<rparr>
       = ([], \<lparr>outside = (), calls = [Extract_call ''report''], heap = []\<rparr>)
   \<and> retrieve \<lparr>claims = [example_claim\<lparr>Claim.id := ''claim-r-0'',
                            source_ids := [''source-r-1'', ''source-r-2'', ''source-r-1'']\<rparr>],
               sources = assign_source_ids ''r'' example_sources\<rparr>
        (Some example_firecrawl) \<lparr>outside = (), calls = [Extract_call ''report''], heap = []\<rparr>
       = fetch_sources (assign_source_ids ''r'' example_sources) (Some example_firecrawl)
           \<lparr>outside = (), calls = [Extract_call ''report''], heap = []\<rparr>"
proof -
  let ?w1 = "\<lparr>outside = (), calls = [Extract_call ''report''], heap = []\<rparr>"
  let ?ex = "\<lparr>claims = [example_claim\<lparr>Claim.id := ''claim-r-0'', source_ids := []\<rparr>],
             sources = []\<rparr>"
  let ?rep = "\<lparr>claims = [example_claim\<lparr>Claim.id := ''claim-r-0'',
                          source_ids := [''source-r-1'', ''source-r-2'', ''source-r-1'']\<rparr>],
              sources = assign_source_ids ''r'' example_sources\<rparr>"
  note failing = validate_report_outcomes [OF failing_extracted, of stub_judge
         "Some example_firecrawl" "''t''" "''now''"]
  from failing
  have a: "fst (validate_report ''report'' failing_extractor stub_judge (Some example_firecrawl)
          ''r'' ''t'' ''now'' world0) = Inr None"
    by simp
  from failing
  have "\<exists>e ow. failing_extractor ''report'' (outside world0) = (Inl e, ow)"
    by blast
  then have a0: "failing_extractor ''report'' (outside world0) = (Inl ''malformed response'', ())"
    by (simp add: failing_extractor_def)
  have ne: "claims ?ex \<noteq> []" and s: "sources ?ex = []" by simp_all
  note empty = validate_report_outcomes [OF no_sources_extracted, of stub_judge
         "Some example_firecrawl" "''t''" "''now''"]
  from empty
  have t: "\<forall>ex. Some ?ex = Some ex \<and> claims ex \<noteq> [] \<longrightarrow>
        (\<exists>srcs w2 rs w3 report.
           retrieve ex (Some example_firecrawl) ?w1 = (srcs, w2)
           \<and> validate_all_claims (claims ex) srcs stub_judge w2 = (rs, w3)
           \<and> rs \<noteq> []
           \<and> length (objects w3 rs) = length (claims ex)
           \<and> generate_trust_report (objects w3 rs) ''t'' ''now'' = Inr report
           \<and> validate_report ''report'' no_sources_extractor stub_judge (Some example_firecrawl)
                ''r'' ''t'' ''now'' world0
               = (Inr (Some (report, objects w3 rs, ex\<lparr>sources := srcs\<rparr>)), w3))"
    and k: "\<forall>ex. Some ?ex = Some ex \<and> sources ex = [] \<longrightarrow>
              retrieve ex (Some example_firecrawl) ?w1 = ([], ?w1)"
    by blast+
  from t [rule_format, of ?ex] ne
  obtain srcs w2 rs w3 report where
    r: "retrieve ?ex (Some example_firecrawl) ?w1 = (srcs, w2)"
    and n: "length (objects w3 rs) = length (claims ?ex)"
    and v: "validate_report ''report'' no_sources_extractor stub_judge (Some example_firecrawl)
                ''r'' ''t'' ''now'' world0
               = (Inr (Some (report, objects w3 rs, ?ex\<lparr>sources := srcs\<rparr>)), w3)"
    by blast
  from k [rule_format, of ?ex] s
  have skipped: "retrieve ?ex (Some example_firecrawl) ?w1 = ([], ?w1)" by simp
  then have "srcs = []" using r by simp
  then have "validate_report ''report'' no_sources_extractor stub_judge (Some example_firecrawl)
                ''r'' ''t'' ''now'' world0 = (Inr (Some (report, objects w3 rs, ?ex)), w3)"
    using v by simp
  moreover have "length (objects w3 rs) = 1" using n by simp
  ultimately have b: "\<exists>report rs w3.
         validate_report ''report'' no_sources_extractor stub_judge (Some example_firecrawl)
           ''r'' ''t'' ''now'' world0 = (Inr (Some (report, rs, ?ex)), w3) \<and> length rs = 1"
    by blast
  from validate_report_outcomes [OF example_extracted, of stub_judge
         "Some example_firecrawl" "''t''" "''now''"]
  have "\<forall>ex. Some ?rep = Some ex \<and> sources ex \<noteq> [] \<longrightarrow>
          retrieve ex (Some example_firecrawl) ?w1
            = fetch_sources (sources ex) (Some example_firecrawl) ?w1"
    by blast
  from this [rule_format, of ?rep] example_sources_assigned_nonempty
  have fetched: "retrieve ?rep (Some example_firecrawl) ?w1
          = fetch_sources (assign_source_ids ''r'' example_sources) (Some example_firecrawl) ?w1"
    by simp
  show ?thesis using a0 a b skipped fetched by (intro conjI)
qed

text \<open>
  The scenario of section 8 of the specification with no extracted source: retrieval
  is skipped, no client but the extractor is called, the one claim is
  \<open>UNVERIFIABLE\<close> and the trust score is 20.0.
\<close>

lemma no_sources_scenario:
  "validate_report ''report'' no_sources_extractor stub_judge (Some example_firecrawl)
      ''r'' ''t'' ''now'' world0
   = (Inr (Some
        (\<lparr>TrustReport.id = ''t'', timestamp = ''now'', trust_score = 20, claim_count = 1,
          results = counts_dict 0 0 0 1, has_contradictions = False\<rparr>,
         [no_evidence_result (example_claim\<lparr>Claim.id := ''claim-r-0'', source_ids := []\<rparr>)],
         \<lparr>claims = [example_claim\<lparr>Claim.id := ''claim-r-0'', source_ids := []\<rparr>],
          sources = []\<rparr>)),
      \<lparr>outside = (), calls = [Extract_call ''report''],
       heap = [(False, no_evidence_result
                         (example_claim\<lparr>Claim.id := ''claim-r-0'', source_ids := []\<rparr>))]\<rparr>)"
proof -
  let ?c = "example_claim\<lparr>Claim.id := ''claim-r-0'', source_ids := []\<rparr>"
  have v: "validate_all_claims [?c] [] stub_judge w
             = ([length (heap w)], w\<lparr>heap := heap w @ [(False, no_evidence_result ?c)]\<rparr>)" for w
    by (simp add: validate_all_claims_def validate_claim_def claim_sources_def new_result_def)
  have "round1 (py_max0 (fsub (spec_base [mk_result UNVERIFIABLE 0 False])
                           (float_of_int (spec_penalty [mk_result UNVERIFIABLE 0 False])))) = 20"
    by code_simp
  moreover have "spec_base [no_evidence_result ?c] = spec_base [mk_result UNVERIFIABLE 0 False]"
    by (rule spec_base_cong) (simp add: no_evidence_result_def mk_result_def)
  moreover have "spec_penalty [no_evidence_result ?c] = spec_penalty [mk_result UNVERIFIABLE 0 False]"
    by (simp add: spec_penalty_def spec_flagged_def no_evidence_result_def mk_result_def)
  ultimately have sc: "calculate_trust_score [no_evidence_result ?c] = Inr 20"
    by (simp add: score_unfold)
  have g: "generate_trust_report [no_evidence_result ?c] ''t'' ''now'' =
             Inr \<lparr>TrustReport.id = ''t'', timestamp = ''now'', trust_score = 20, claim_count = 1,
                  results = counts_dict 0 0 0 1, has_contradictions = False\<rparr>"
    using generate_trust_report_value [of "[no_evidence_result ?c]" "''t''" "''now''"] sc
    by (simp add: count_status_def no_evidence_result_def)
  show ?thesis
    by (simp add: validate_report_def no_sources_extracted retrieve_def v g objects_def)
qed

end
